theory Spec2Isabelle
  imports Complex_Main "HOL-Library.Word" "HOL-Library.Code_Target_Numeral"
begin

unbundle bit_operations_syntax

section \<open>Exceptions as values\<close>

text \<open>
  Every \<^verbatim>\<open>raise\<close> and every failing \<^verbatim>\<open>assert\<close> of
  \<^verbatim>\<open>stable_container.py\<close> is a value \<open>Inl (Err c msg)\<close>: \<open>c\<close> is the Python
  exception class, \<open>msg\<close> the message of the raise site with the interpolated values left
  out. A function that can raise returns \<open>error + 'a\<close>.
\<close>

datatype py_exception =
  ValueError | AttributeError | AssertionError | NavigationError | KeyError
  | IndexError | TypeError | UnboundLocalError | Exception

datatype error = Err py_exception string

fun exn_class :: "error \<Rightarrow> py_exception" where
  "exn_class (Err c msg) = c"

section \<open>The tree substrate\<close>

type_synonym byte = "8 word"

text \<open>
  \<^verbatim>\<open>remerkleable.tree\<close> is imported by the source file and is not part of it. A node is a
  32-byte root or a pair of nodes; equality of nodes stands for equality of Merkle roots.
\<close>

datatype node = RootNode "byte list" | PairNode node node

text \<open>Modelled from the spec: \<^verbatim>\<open>get_left\<close>, \<^verbatim>\<open>get_right\<close> of the tree substrate
  (section 6); a root has no children.\<close>

definition get_left :: "node \<Rightarrow> error + node" where
  "get_left n = (case n of PairNode l r \<Rightarrow> Inr l
     | RootNode _ \<Rightarrow> Inl (Err NavigationError ''no left child''))"

definition get_right :: "node \<Rightarrow> error + node" where
  "get_right n = (case n of PairNode l r \<Rightarrow> Inr r
     | RootNode _ \<Rightarrow> Inl (Err NavigationError ''no right child''))"

text \<open>Modelled from the spec: \<^verbatim>\<open>rebind_left\<close>, \<^verbatim>\<open>rebind_right\<close>, the functional
  update of one child (section 3, "functional update returning a new backing").\<close>

definition rebind_left :: "node \<Rightarrow> node \<Rightarrow> error + node" where
  "rebind_left n l' = (case n of PairNode l r \<Rightarrow> Inr (PairNode l' r)
     | RootNode _ \<Rightarrow> Inl (Err NavigationError ''no left child''))"

definition rebind_right :: "node \<Rightarrow> node \<Rightarrow> error + node" where
  "rebind_right n r' = (case n of PairNode l r \<Rightarrow> Inr (PairNode l r')
     | RootNode _ \<Rightarrow> Inl (Err NavigationError ''no right child''))"

text \<open>Modelled from the spec: \<^verbatim>\<open>zero_node(depth)\<close>, the all-zero perfect subtree; the
  zero leaf is the root of 32 zero bytes.\<close>

fun zero_node :: "nat \<Rightarrow> node" where
  "zero_node 0 = RootNode (replicate 32 0)"
| "zero_node (Suc d) = PairNode (zero_node d) (zero_node d)"

text \<open>Modelled from the spec: \<^verbatim>\<open>get_depth(N) -> ceil(log2(N))\<close> (section 6); depth 0
  for a capacity of at most one.\<close>

fun get_depth :: "nat \<Rightarrow> nat" where
  "get_depth n = (if n \<le> 1 then 0 else Suc (get_depth ((n + 1) div 2)))"

declare get_depth.simps [simp del]

definition RIGHT_GINDEX :: nat where
  "RIGHT_GINDEX = 3"

definition OFFSET_BYTE_LENGTH :: nat where
  "OFFSET_BYTE_LENGTH = 4"

text \<open>Modelled from the spec: the positional \<^verbatim>\<open>getter(gindex)\<close>. A generalized index
  is a path: root 1, left child of \<open>g\<close> is \<open>2 * g\<close>, right child \<open>2 * g + 1\<close> (glossary).\<close>

fun getter :: "node \<Rightarrow> nat \<Rightarrow> error + node" where
  "getter n g =
     (if g < 1 then Inl (Err NavigationError ''invalid gindex'')
      else if g = 1 then Inr n
      else (case getter n (g div 2) of
              Inl e \<Rightarrow> Inl e
            | Inr p \<Rightarrow> (if even g then get_left p else get_right p)))"

declare getter.simps [simp del]

text \<open>Modelled from the spec: the functional \<^verbatim>\<open>setter(gindex)(node)\<close>, which rebuilds
  the path from the replaced node up to the root.\<close>

fun setter :: "node \<Rightarrow> nat \<Rightarrow> node \<Rightarrow> error + node" where
  "setter n g v =
     (if g < 1 then Inl (Err NavigationError ''invalid gindex'')
      else if g = 1 then Inr v
      else (case getter n (g div 2) of
              Inl e \<Rightarrow> Inl e
            | Inr p \<Rightarrow>
               (case (if even g then rebind_left p v else rebind_right p v) of
                  Inl e \<Rightarrow> Inl e
                | Inr p' \<Rightarrow> setter n (g div 2) p')))"

declare setter.simps [simp del]

text \<open>Modelled from the spec: \<^verbatim>\<open>subtree_fill_to_contents(leaves, depth)\<close>, the perfect
  subtree of the given depth whose first leaves are the given nodes and whose other leaves
  are zero leaves; more leaves than slots is a navigation error.\<close>

fun subtree_fill_to_contents :: "node list \<Rightarrow> nat \<Rightarrow> error + node" where
  "subtree_fill_to_contents nodes 0 =
     (case nodes of
        [] \<Rightarrow> Inr (zero_node 0)
      | [x] \<Rightarrow> Inr x
      | _ \<Rightarrow> Inl (Err NavigationError ''too many nodes''))"
| "subtree_fill_to_contents nodes (Suc d) =
     (case subtree_fill_to_contents (take (2 ^ d) nodes) d of
        Inl e \<Rightarrow> Inl e
      | Inr l \<Rightarrow>
         (case subtree_fill_to_contents (drop (2 ^ d) nodes) d of
            Inl e \<Rightarrow> Inl e
          | Inr r \<Rightarrow> Inr (PairNode l r)))"

section \<open>Field types and Python values\<close>

text \<open>
  A field type is any SSZ view class; the source uses it only through the methods below
  (the view contract of section 6), so a field type is the record of these methods. A view
  of the type is represented by its backing node:
  \<^verbatim>\<open>ftyp.view_from_backing(fnode).serialize(stream)\<close> writes \<open>view_serialize ftyp fnode\<close>
  and returns its length, and \<^verbatim>\<open>ftyp.deserialize(stream, scope).get_backing()\<close> is
  \<open>type_deserialize ftyp bs scope\<close> where \<open>bs\<close> are the (at most \<open>scope\<close>) bytes read.
\<close>

datatype raw = RawInt int | RawBytes "byte list"

record ftype =
  is_fixed_byte_length :: bool
  type_byte_length :: nat
  min_byte_length :: nat
  max_byte_length :: nat
  coerce_view :: "raw \<Rightarrow> error + node"
  default_node :: node
  view_serialize :: "node \<Rightarrow> error + byte list"
  type_deserialize :: "byte list \<Rightarrow> nat \<Rightarrow> error + node"

text \<open>A value handed to a constructor or an assignment: \<^verbatim>\<open>None\<close>, a view of the
  field's type (given by its backing), or any other Python value, which is coerced.\<close>

datatype pyval = PyNone | PyView node | PyRaw raw

section \<open>Schemas\<close>

text \<open>
  \<^verbatim>\<open>StableContainer._field_indices\<close> is an insertion-ordered dictionary from the field
  name to \<open>(findex, ftyp)\<close>: an association list. \<^verbatim>\<open>Profile._field_indices\<close> maps the name
  to \<open>(findex, ftyp, fopt)\<close>.
\<close>

record stable_cls =
  sc_N :: nat
  sc_field_indices :: "(string \<times> nat \<times> ftype) list"

record container_cls =
  ct_fields :: "(string \<times> ftype) list"

datatype base_cls = StableBase stable_cls | ContainerBase container_cls

record profile_cls =
  pf_B :: base_cls
  pf_field_indices :: "(string \<times> nat \<times> ftype \<times> bool) list"

text \<open>\<^verbatim>\<open>StableContainerView.__init_subclass__\<close> with the capacity check of
  \<^verbatim>\<open>StableContainer.__init_subclass__\<close>: the fields are numbered in declaration order
  (every annotation is taken to be of the form \<^verbatim>\<open>Optional[T]\<close>, given here by \<open>T\<close>).\<close>

definition stable_init_subclass :: "int \<Rightarrow> (string \<times> ftype) list \<Rightarrow> error + stable_cls" where
  "stable_init_subclass n annotations =
     (if n \<le> 0 then Inl (Err TypeError ''Unsupported capacity'')
      else if int (length annotations) > n
        then Inl (Err TypeError ''contains too many fields'')
      else Inr \<lparr>sc_N = nat n,
                sc_field_indices =
                  map (\<lambda>(findex, (fkey, t)). (fkey, findex, t))
                    (enumerate 0 annotations)\<rparr>)"

section \<open>Generalized indices\<close>

text \<open>\<^verbatim>\<open>StableContainer.key_to_static_gindex\<close>; a missing key is the
  \<^verbatim>\<open>KeyError\<close> of the dictionary lookup.\<close>

definition stable_key_to_static_gindex :: "stable_cls \<Rightarrow> string \<Rightarrow> error + nat" where
  "stable_key_to_static_gindex cls key =
     (if key = ''__active_fields__'' then Inr RIGHT_GINDEX
      else (case map_of (sc_field_indices cls) key of
              None \<Rightarrow> Inl (Err KeyError key)
            | Some (findex, _) \<Rightarrow> Inr (2 ^ get_depth (sc_N cls) * 2 + findex)))"

text \<open>\<^verbatim>\<open>Profile.key_to_static_gindex\<close>.\<close>

definition profile_key_to_static_gindex :: "profile_cls \<Rightarrow> string \<Rightarrow> error + nat" where
  "profile_key_to_static_gindex cls key =
     (if key = ''__active_fields__'' then Inr RIGHT_GINDEX
      else (case map_of (pf_field_indices cls) key of
              None \<Rightarrow> Inl (Err KeyError key)
            | Some (findex, _, _) \<Rightarrow>
               (case pf_B cls of
                  StableBase b \<Rightarrow> Inr (2 ^ get_depth (sc_N b) * 2 + findex)
                | ContainerBase c \<Rightarrow>
                   Inr (2 ^ get_depth (length (ct_fields c)) + findex))))"

section \<open>Bitvectors and offsets\<close>

text \<open>
  \<^verbatim>\<open>remerkleable.bitfields.Bitvector\<close> is imported, not part of the source file. A view of
  \<^verbatim>\<open>Bitvector[K]\<close> is the list of its \<open>K\<close> bits.
\<close>

text \<open>Modelled from the spec: \<^verbatim>\<open>Bitvector[K]\<close> has a fixed encoding of \<open>ceil(K/8)\<close>
  bytes (section 6).\<close>

definition bv_type_byte_length :: "nat \<Rightarrow> nat" where
  "bv_type_byte_length k = (k + 7) div 8"

text \<open>Modelled from the spec: \<^verbatim>\<open>Bitvector[K]()\<close>, the default value with no bit set.\<close>

definition bv_default :: "nat \<Rightarrow> bool list" where
  "bv_default k = replicate k False"

text \<open>Modelled from the spec: indexed \<^verbatim>\<open>get(i)\<close> and \<^verbatim>\<open>set(i, bool)\<close>; an index
  outside the vector raises.\<close>

definition bv_get :: "bool list \<Rightarrow> nat \<Rightarrow> error + bool" where
  "bv_get bs i = (if i < length bs then Inr (bs ! i)
     else Inl (Err IndexError ''bitvector index out of range''))"

definition bv_set :: "bool list \<Rightarrow> nat \<Rightarrow> bool \<Rightarrow> error + bool list" where
  "bv_set bs i v = (if i < length bs then Inr (bs[i := v])
     else Inl (Err IndexError ''bitvector index out of range''))"

text \<open>Modelled from the spec: the wire format of \<^verbatim>\<open>Bitvector[K]\<close>, "little-endian bits,
  LSB-first within each byte, total \<open>ceil(K/8)\<close> bytes; unused trailing bits are zero".\<close>

definition bits_to_byte :: "bool list \<Rightarrow> byte" where
  "bits_to_byte bs = horner_sum of_bool 2 bs"

definition bits_to_bytes :: "bool list \<Rightarrow> byte list" where
  "bits_to_bytes bs =
     map (\<lambda>j. bits_to_byte (take 8 (drop (8 * j) bs))) [0..<(length bs + 7) div 8]"

definition bytes_to_bits :: "byte list \<Rightarrow> bool list" where
  "bytes_to_bits bytes = map (\<lambda>i. bit (bytes ! (i div 8)) (i mod 8)) [0..<8 * length bytes]"

definition bv_serialize :: "bool list \<Rightarrow> byte list" where
  "bv_serialize bs = bits_to_bytes bs"

text \<open>Modelled from the spec: \<^verbatim>\<open>Bitvector[K].deserialize(stream, scope)\<close> reads \<open>scope\<close>
  bytes; a scope other than \<open>ceil(K/8)\<close>, a stream that ends early and set bits beyond
  \<open>K\<close> are rejected.\<close>

definition bv_deserialize :: "nat \<Rightarrow> byte list \<Rightarrow> nat \<Rightarrow> error + bool list" where
  "bv_deserialize k stream scope =
     (if scope \<noteq> bv_type_byte_length k then Inl (Err Exception ''invalid bitvector scope'')
      else if length stream < scope then Inl (Err Exception ''bitvector: stream too short'')
      else (let bits = bytes_to_bits (take scope stream)
            in if list_ex (\<lambda>b. b) (drop k bits)
               then Inl (Err Exception ''bitvector: bits set beyond the length'')
               else Inr (take k bits)))"

text \<open>Modelled from the spec: the "packed \<^verbatim>\<open>Bitvector[N]\<close> backing": the serialized bytes
  cut into 32-byte chunks, the last one padded with zero bytes, as the leaves of a subtree.\<close>

definition pad_chunk :: "byte list \<Rightarrow> byte list" where
  "pad_chunk bs = bs @ replicate (32 - length bs) 0"

definition bytes_to_chunks :: "byte list \<Rightarrow> node list" where
  "bytes_to_chunks bytes =
     map (\<lambda>c. RootNode (pad_chunk (take 32 (drop (32 * c) bytes))))
       [0..<(length bytes + 31) div 32]"

definition bv_chunk_count :: "nat \<Rightarrow> nat" where
  "bv_chunk_count k = (k + 255) div 256"

definition bv_get_backing :: "bool list \<Rightarrow> error + node" where
  "bv_get_backing bs =
     subtree_fill_to_contents (bytes_to_chunks (bits_to_bytes bs))
       (get_depth (bv_chunk_count (length bs)))"

text \<open>Modelled from the spec: \<^verbatim>\<open>Bitvector[K].view_from_backing(node)\<close>. Bit \<open>i\<close> is bit
  \<open>i mod 8\<close> of byte \<open>i div 8 mod 32\<close> of chunk \<open>i div 256\<close>.\<close>

definition chunk_bit :: "node \<Rightarrow> nat \<Rightarrow> error + bool" where
  "chunk_bit c i = (case c of
       RootNode bytes \<Rightarrow>
         (if i div 8 < length bytes then Inr (bit (bytes ! (i div 8)) (i mod 8))
          else Inl (Err NavigationError ''short chunk''))
     | PairNode _ _ \<Rightarrow> Inl (Err NavigationError ''chunk expected''))"

fun bv_read_bits :: "nat \<Rightarrow> node \<Rightarrow> nat list \<Rightarrow> error + bool list" where
  "bv_read_bits k n [] = Inr []"
| "bv_read_bits k n (i # is) =
     (case getter n (2 ^ get_depth (bv_chunk_count k) + i div 256) of
        Inl e \<Rightarrow> Inl e
      | Inr c \<Rightarrow>
         (case chunk_bit c (i mod 256) of
            Inl e \<Rightarrow> Inl e
          | Inr b \<Rightarrow>
             (case bv_read_bits k n is of
                Inl e \<Rightarrow> Inl e
              | Inr bs \<Rightarrow> Inr (b # bs))))"

definition bv_view_from_backing :: "nat \<Rightarrow> node \<Rightarrow> error + bool list" where
  "bv_view_from_backing k n = bv_read_bits k n [0..<k]"

text \<open>Modelled from the spec: \<^verbatim>\<open>encode_offset\<close> and \<^verbatim>\<open>decode_offset\<close> of
  \<^verbatim>\<open>remerkleable.complex\<close>, "uint offsets: 4-byte little-endian unsigned". An offset that
  does not fit in 32 bits cannot be encoded; decoding reads up to four bytes.\<close>

definition encode_offset :: "nat \<Rightarrow> error + byte list" where
  "encode_offset offset =
     (if offset < 2 ^ 32
      then Inr (map (\<lambda>k. word_of_nat (offset div 256 ^ k)) [0..<OFFSET_BYTE_LENGTH])
      else Inl (Err ValueError ''offset out of uint32 range''))"

definition decode_offset :: "byte list \<Rightarrow> nat" where
  "decode_offset stream = horner_sum unat 256 (take OFFSET_BYTE_LENGTH stream)"

section \<open>Two concrete field types\<close>

text \<open>Modelled from the spec: the basic type \<^verbatim>\<open>uintN\<close> of \<open>nbytes\<close> bytes, as used in the
  scenarios of section 8: the leaf is the little-endian value padded to 32 bytes.\<close>

definition uint_type :: "nat \<Rightarrow> ftype" where
  "uint_type nbytes =
     \<lparr>is_fixed_byte_length = True,
      type_byte_length = nbytes,
      min_byte_length = nbytes,
      max_byte_length = nbytes,
      coerce_view = (\<lambda>r. case r of
          RawInt i \<Rightarrow>
            (if 0 \<le> i \<and> i < 2 ^ (8 * nbytes)
             then Inr (RootNode (pad_chunk (map (\<lambda>k. word_of_int (i div 256 ^ k)) [0..<nbytes])))
             else Inl (Err ValueError ''value out of bounds for uint''))
        | RawBytes _ \<Rightarrow> Inl (Err ValueError ''cannot coerce to uint'')),
      default_node = zero_node 0,
      view_serialize = (\<lambda>n. case n of
          RootNode bytes \<Rightarrow> Inr (take nbytes bytes)
        | PairNode _ _ \<Rightarrow> Inl (Err NavigationError ''basic value expected'')),
      type_deserialize = (\<lambda>bytes scope.
          if scope \<noteq> nbytes then Inl (Err Exception ''invalid scope for uint'')
          else Inr (RootNode (pad_chunk bytes)))\<rparr>"

text \<open>Modelled from the spec: \<^verbatim>\<open>List[uint8, limit]\<close> for a limit of at most 32 (one chunk
  of contents), as used in scenario 3 of section 8: the backing pairs the padded contents
  with the length.\<close>

definition byte_list_type :: "nat \<Rightarrow> ftype" where
  "byte_list_type limit =
     \<lparr>is_fixed_byte_length = False,
      type_byte_length = 0,
      min_byte_length = 0,
      max_byte_length = limit,
      coerce_view = (\<lambda>r. case r of
          RawBytes bytes \<Rightarrow>
            (if length bytes \<le> limit
             then Inr (PairNode (RootNode (pad_chunk bytes))
                         (RootNode (pad_chunk [word_of_nat (length bytes)])))
             else Inl (Err ValueError ''too many elements for list''))
        | RawInt _ \<Rightarrow> Inl (Err ValueError ''cannot coerce to list'')),
      default_node = PairNode (zero_node 0) (zero_node 0),
      view_serialize = (\<lambda>n. case n of
          PairNode (RootNode bytes) (RootNode (len # _)) \<Rightarrow> Inr (take (unat len) bytes)
        | _ \<Rightarrow> Inl (Err NavigationError ''list backing expected'')),
      type_deserialize = (\<lambda>bytes scope.
          if scope > limit then Inl (Err Exception ''invalid scope for list'')
          else Inr (PairNode (RootNode (pad_chunk bytes))
                      (RootNode (pad_chunk [word_of_nat (length bytes)]))))\<rparr>"

section \<open>Dictionaries\<close>

text \<open>Keyword arguments and \<^verbatim>\<open>field_values\<close> are insertion-ordered dictionaries:
  association lists with \<open>map_of\<close> as lookup, \<open>dict_set\<close> as \<^verbatim>\<open>d[k] = v\<close> and
  \<open>dict_pop\<close> as \<^verbatim>\<open>d.pop(k)\<close>.\<close>

fun dict_set :: "('k \<times> 'v) list \<Rightarrow> 'k \<Rightarrow> 'v \<Rightarrow> ('k \<times> 'v) list" where
  "dict_set [] k v = [(k, v)]"
| "dict_set ((k', v') # d) k v =
     (if k' = k then (k', v) # d else (k', v') # dict_set d k v)"

definition dict_pop :: "('k \<times> 'v) list \<Rightarrow> 'k \<Rightarrow> ('k \<times> 'v) list" where
  "dict_pop d k = filter (\<lambda>(k', v). k' \<noteq> k) d"

section \<open>StableContainer: construction and field access\<close>

text \<open>A view is its class and its backing node. \<^verbatim>\<open>self.active_fields()\<close> of both
  classes views the right child of the backing as a bitvector.\<close>

definition stable_active_fields :: "stable_cls \<Rightarrow> node \<Rightarrow> error + bool list" where
  "stable_active_fields cls backing =
     (case get_right backing of
        Inl e \<Rightarrow> Inl e
      | Inr active_fields_node \<Rightarrow> bv_view_from_backing (sc_N cls) active_fields_node)"

text \<open>\<^verbatim>\<open>Profile.active_fields\<close>.\<close>

definition profile_active_fields :: "profile_cls \<Rightarrow> node \<Rightarrow> error + bool list" where
  "profile_active_fields cls backing =
     (case pf_B cls of
        ContainerBase c \<Rightarrow>
          Inl (Err Exception ''active_fields requires Profile with StableContainer base'')
      | StableBase b \<Rightarrow>
         (case get_right backing of
            Inl e \<Rightarrow> Inl e
          | Inr active_fields_node \<Rightarrow> bv_view_from_backing (sc_N b) active_fields_node))"

text \<open>\<^verbatim>\<open>stable_get\<close> and \<^verbatim>\<open>stable_set\<close> are called with a StableContainer or a Profile
  as \<^verbatim>\<open>self\<close>.\<close>

datatype self_cls = StableSelf stable_cls | ProfileSelf profile_cls

fun self_active_fields :: "self_cls \<Rightarrow> node \<Rightarrow> error + bool list" where
  "self_active_fields (StableSelf cls) backing = stable_active_fields cls backing"
| "self_active_fields (ProfileSelf cls) backing = profile_active_fields cls backing"

text \<open>\<^verbatim>\<open>stable_get\<close> (lines 22 to 27): \<open>PyNone\<close> for an inactive field, else the view
  over the leaf.\<close>

definition stable_get :: "self_cls \<Rightarrow> node \<Rightarrow> nat \<Rightarrow> ftype \<Rightarrow> nat \<Rightarrow> error + pyval" where
  "stable_get self backing findex ftyp n =
     (case self_active_fields self backing of
        Inl e \<Rightarrow> Inl e
      | Inr active_fields \<Rightarrow>
         (case bv_get active_fields findex of
            Inl e \<Rightarrow> Inl e
          | Inr active \<Rightarrow>
             if \<not> active then Inr PyNone
             else (case get_left backing of
                     Inl e \<Rightarrow> Inl e
                   | Inr data \<Rightarrow>
                      (case getter data (2 ^ get_depth n + findex) of
                         Inl e \<Rightarrow> Inl e
                       | Inr fnode \<Rightarrow> Inr (PyView fnode)))))"

text \<open>The node of an assigned value in \<^verbatim>\<open>stable_set\<close> (lines 37 to 43).\<close>

definition value_node :: "ftype \<Rightarrow> pyval \<Rightarrow> error + node" where
  "value_node ftyp v =
     (case v of
        PyNone \<Rightarrow> Inr (zero_node 0)
      | PyView fnode \<Rightarrow> Inr fnode
      | PyRaw r \<Rightarrow> coerce_view ftyp r)"

text \<open>\<^verbatim>\<open>stable_set\<close> (lines 30 to 48) up to its last statement: the next backing.\<close>

definition stable_set_backing ::
  "self_cls \<Rightarrow> node \<Rightarrow> nat \<Rightarrow> ftype \<Rightarrow> nat \<Rightarrow> pyval \<Rightarrow> error + node" where
  "stable_set_backing self backing findex ftyp n v =
     (case self_active_fields self backing of
        Inl e \<Rightarrow> Inl e
      | Inr active_fields \<Rightarrow>
         (case bv_set active_fields findex (v \<noteq> PyNone) of
            Inl e \<Rightarrow> Inl e
          | Inr active_fields' \<Rightarrow>
             (case bv_get_backing active_fields' of
                Inl e \<Rightarrow> Inl e
              | Inr right \<Rightarrow>
                 (case rebind_right backing right of
                    Inl e \<Rightarrow> Inl e
                  | Inr next_backing \<Rightarrow>
                     (case value_node ftyp v of
                        Inl e \<Rightarrow> Inl e
                      | Inr fnode \<Rightarrow>
                         (case get_left next_backing of
                            Inl e \<Rightarrow> Inl e
                          | Inr data \<Rightarrow>
                             (case setter data (2 ^ get_depth n + findex) fnode of
                                Inl e \<Rightarrow> Inl e
                              | Inr next_data \<Rightarrow> rebind_left next_backing next_data)))))))"

text \<open>\<^verbatim>\<open>stable_set\<close> as a statement on the object: the outcome and the backing of
  \<^verbatim>\<open>self\<close> afterwards. \<^verbatim>\<open>self.set_backing(next_backing)\<close> is the last statement and
  the only one that changes \<^verbatim>\<open>self\<close>.\<close>

definition stable_set ::
  "self_cls \<Rightarrow> node \<Rightarrow> nat \<Rightarrow> ftype \<Rightarrow> nat \<Rightarrow> pyval \<Rightarrow> (error + unit) \<times> node" where
  "stable_set self backing findex ftyp n v =
     (case stable_set_backing self backing findex ftyp n v of
        Inl e \<Rightarrow> (Inl e, backing)
      | Inr next_backing \<Rightarrow> (Inr (), next_backing))"

text \<open>The loop of \<^verbatim>\<open>StableContainer.__new__\<close> (lines 78 to 90).\<close>

fun stable_new_loop ::
  "(string \<times> nat \<times> ftype) list \<Rightarrow> (string \<times> pyval) list \<Rightarrow> node list \<Rightarrow> bool list \<Rightarrow>
   error + ((string \<times> pyval) list \<times> node list \<times> bool list)" where
  "stable_new_loop [] kwargs input_nodes active_fields =
     Inr (kwargs, input_nodes, active_fields)"
| "stable_new_loop ((fkey, findex, ftyp) # rest) kwargs input_nodes active_fields =
     (let finput = (case map_of kwargs fkey of Some v \<Rightarrow> v | None \<Rightarrow> PyNone);
          kwargs' = dict_pop kwargs fkey
      in case finput of
           PyNone \<Rightarrow>
             (case bv_set active_fields findex False of
                Inl e \<Rightarrow> Inl e
              | Inr active_fields' \<Rightarrow>
                 stable_new_loop rest kwargs' (input_nodes @ [zero_node 0]) active_fields')
         | PyView fnode \<Rightarrow>
             (case bv_set active_fields findex True of
                Inl e \<Rightarrow> Inl e
              | Inr active_fields' \<Rightarrow>
                 stable_new_loop rest kwargs' (input_nodes @ [fnode]) active_fields')
         | PyRaw r \<Rightarrow>
             (case coerce_view ftyp r of
                Inl e \<Rightarrow> Inl e
              | Inr fnode \<Rightarrow>
                 (case bv_set active_fields findex True of
                    Inl e \<Rightarrow> Inl e
                  | Inr active_fields' \<Rightarrow>
                     stable_new_loop rest kwargs' (input_nodes @ [fnode]) active_fields')))"

text \<open>\<^verbatim>\<open>StableContainer.__new__\<close> (lines 70 to 98): the backing of the new view.\<close>

definition stable_new ::
  "stable_cls \<Rightarrow> node option \<Rightarrow> (string \<times> pyval) list \<Rightarrow> error + node" where
  "stable_new cls backing kwargs =
     (case backing of
        Some b \<Rightarrow>
          if length kwargs \<noteq> 0
          then Inl (Err Exception ''Cannot have both a backing and elements to init fields'')
          else Inr b
      | None \<Rightarrow>
         (case stable_new_loop (sc_field_indices cls) kwargs [] (bv_default (sc_N cls)) of
            Inl e \<Rightarrow> Inl e
          | Inr (kwargs', input_nodes, active_fields) \<Rightarrow>
             if length kwargs' > 0 then Inl (Err AttributeError ''Fields unknown'')
             else (case subtree_fill_to_contents input_nodes (get_depth (sc_N cls)) of
                     Inl e \<Rightarrow> Inl e
                   | Inr left \<Rightarrow>
                      (case bv_get_backing active_fields of
                         Inl e \<Rightarrow> Inl e
                       | Inr right \<Rightarrow> Inr (PairNode left right)))))"

text \<open>\<^verbatim>\<open>StableContainer.__getattr__\<close> and \<^verbatim>\<open>__setattr__\<close>. A name that starts with an
  underscore is an attribute of the Python object: it is handed to the base class, whose
  behaviour is the parameter \<open>super_getattribute\<close>, \<open>super_setattr\<close>.\<close>

definition stable_getattr ::
  "(string \<Rightarrow> node \<Rightarrow> error + pyval) \<Rightarrow> stable_cls \<Rightarrow> node \<Rightarrow> string \<Rightarrow> error + pyval" where
  "stable_getattr super_getattribute cls backing item =
     (case item of
        [] \<Rightarrow> Inl (Err IndexError ''string index out of range'')
      | c # _ \<Rightarrow>
         if c = CHR ''_'' then super_getattribute item backing
         else (case map_of (sc_field_indices cls) item of
                 None \<Rightarrow> Inl (Err AttributeError ''Unknown field'')
               | Some (findex, ftyp) \<Rightarrow>
                  stable_get (StableSelf cls) backing findex ftyp (sc_N cls)))"

definition stable_setattr ::
  "(string \<Rightarrow> pyval \<Rightarrow> node \<Rightarrow> (error + unit) \<times> node) \<Rightarrow>
   stable_cls \<Rightarrow> node \<Rightarrow> string \<Rightarrow> pyval \<Rightarrow> (error + unit) \<times> node" where
  "stable_setattr super_setattr cls backing key v =
     (case key of
        [] \<Rightarrow> (Inl (Err IndexError ''string index out of range''), backing)
      | c # _ \<Rightarrow>
         if c = CHR ''_'' then super_setattr key v backing
         else (case map_of (sc_field_indices cls) key of
                 None \<Rightarrow> (Inl (Err AttributeError ''Unknown field''), backing)
               | Some (findex, ftyp) \<Rightarrow>
                  stable_set (StableSelf cls) backing findex ftyp (sc_N cls) v))"

section \<open>StableContainer: size reflection and the codec\<close>

text \<open>\<^verbatim>\<open>StableContainer.min_byte_length\<close> and \<^verbatim>\<open>max_byte_length\<close>.\<close>

definition stable_min_byte_length :: "stable_cls \<Rightarrow> nat" where
  "stable_min_byte_length cls = bv_type_byte_length (sc_N cls)"

fun stable_max_loop :: "(string \<times> nat \<times> ftype) list \<Rightarrow> nat \<Rightarrow> nat" where
  "stable_max_loop [] total_bytes = total_bytes"
| "stable_max_loop ((fkey, findex, ftyp) # rest) total_bytes =
     stable_max_loop rest
       ((if \<not> is_fixed_byte_length ftyp then total_bytes + OFFSET_BYTE_LENGTH else total_bytes)
          + max_byte_length ftyp)"

definition stable_max_byte_length :: "stable_cls \<Rightarrow> nat" where
  "stable_max_byte_length cls =
     stable_max_loop (sc_field_indices cls) (bv_type_byte_length (sc_N cls))"

text \<open>Counting one present field in the first loop of both \<^verbatim>\<open>serialize\<close> methods
  (lines 267 to 271 and 585 to 589): the state is \<^verbatim>\<open>num_data_bytes\<close> and
  \<^verbatim>\<open>has_dyn_fields\<close>.\<close>

definition count_field :: "ftype \<Rightarrow> nat \<times> bool \<Rightarrow> nat \<times> bool" where
  "count_field ftyp acc =
     (case acc of (num_data_bytes, has_dyn_fields) \<Rightarrow>
        if is_fixed_byte_length ftyp
        then (num_data_bytes + type_byte_length ftyp, has_dyn_fields)
        else (num_data_bytes + OFFSET_BYTE_LENGTH, True))"

text \<open>The first loop of \<^verbatim>\<open>StableContainer.serialize\<close> (lines 262 to 271): the size of
  the fixed section and whether a dynamic field is present.\<close>

fun stable_count_loop ::
  "bool list \<Rightarrow> (string \<times> nat \<times> ftype) list \<Rightarrow> nat \<times> bool \<Rightarrow> error + (nat \<times> bool)" where
  "stable_count_loop active_fields [] acc = Inr acc"
| "stable_count_loop active_fields ((fkey, findex, ftyp) # rest) acc =
     (case bv_get active_fields findex of
        Inl e \<Rightarrow> Inl e
      | Inr active \<Rightarrow>
         if \<not> active then stable_count_loop active_fields rest acc
         else stable_count_loop active_fields rest (count_field ftyp acc))"

text \<open>The body of the second loop, shared textually by \<^verbatim>\<open>StableContainer.serialize\<close>
  (lines 279 to 285) and \<^verbatim>\<open>Profile.serialize\<close> (lines 604 to 610): the state is what was
  written to \<^verbatim>\<open>stream\<close>, the content of \<^verbatim>\<open>temp_dyn_stream\<close> and
  \<^verbatim>\<open>num_data_bytes\<close>. \<^verbatim>\<open>temp_dyn_stream\<close> is bound only if \<^verbatim>\<open>has_dyn_fields\<close>.\<close>

definition write_field ::
  "bool \<Rightarrow> node \<Rightarrow> nat \<Rightarrow> nat \<Rightarrow> ftype \<Rightarrow> byte list \<times> byte list \<times> nat \<Rightarrow>
   error + (byte list \<times> byte list \<times> nat)" where
  "write_field has_dyn_fields data n findex ftyp st =
     (case st of (stream, temp_dyn_stream, num_data_bytes) \<Rightarrow>
        (case getter data (2 ^ get_depth n + findex) of
           Inl e \<Rightarrow> Inl e
         | Inr fnode \<Rightarrow>
            if is_fixed_byte_length ftyp
            then (case view_serialize ftyp fnode of
                    Inl e \<Rightarrow> Inl e
                  | Inr bytes \<Rightarrow> Inr (stream @ bytes, temp_dyn_stream, num_data_bytes))
            else (case encode_offset num_data_bytes of
                    Inl e \<Rightarrow> Inl e
                  | Inr offset_bytes \<Rightarrow>
                     if \<not> has_dyn_fields
                     then Inl (Err UnboundLocalError ''temp_dyn_stream'')
                     else (case view_serialize ftyp fnode of
                             Inl e \<Rightarrow> Inl e
                           | Inr bytes \<Rightarrow>
                              Inr (stream @ offset_bytes, temp_dyn_stream @ bytes,
                                   num_data_bytes + length bytes)))))"

text \<open>The second loop of \<^verbatim>\<open>StableContainer.serialize\<close> (lines 276 to 285).\<close>

fun stable_write_loop ::
  "bool list \<Rightarrow> bool \<Rightarrow> node \<Rightarrow> nat \<Rightarrow> (string \<times> nat \<times> ftype) list \<Rightarrow>
   byte list \<times> byte list \<times> nat \<Rightarrow> error + (byte list \<times> byte list \<times> nat)" where
  "stable_write_loop active_fields has_dyn_fields data n [] st = Inr st"
| "stable_write_loop active_fields has_dyn_fields data n ((fkey, findex, ftyp) # rest) st =
     (case bv_get active_fields findex of
        Inl e \<Rightarrow> Inl e
      | Inr active \<Rightarrow>
         if \<not> active then stable_write_loop active_fields has_dyn_fields data n rest st
         else (case write_field has_dyn_fields data n findex ftyp st of
                 Inl e \<Rightarrow> Inl e
               | Inr st' \<Rightarrow> stable_write_loop active_fields has_dyn_fields data n rest st'))"

text \<open>\<^verbatim>\<open>StableContainer.serialize\<close> (lines 258 to 290): the bytes written to the stream
  and the returned count.\<close>

definition stable_serialize :: "stable_cls \<Rightarrow> node \<Rightarrow> error + (byte list \<times> nat)" where
  "stable_serialize cls backing =
     (case stable_active_fields cls backing of
        Inl e \<Rightarrow> Inl e
      | Inr active_fields \<Rightarrow>
         (let prefix = bv_serialize active_fields;
              num_prefix_bytes = length prefix
          in case stable_count_loop active_fields (sc_field_indices cls) (0, False) of
               Inl e \<Rightarrow> Inl e
             | Inr (num_data_bytes, has_dyn_fields) \<Rightarrow>
                (case get_left backing of
                   Inl e \<Rightarrow> Inl e
                 | Inr data \<Rightarrow>
                    (case stable_write_loop active_fields has_dyn_fields data (sc_N cls)
                            (sc_field_indices cls) ([], [], num_data_bytes) of
                       Inl e \<Rightarrow> Inl e
                     | Inr (stream, temp_dyn_stream, num_data_bytes') \<Rightarrow>
                        Inr (prefix @ stream @ (if has_dyn_fields then temp_dyn_stream else []),
                             num_prefix_bytes + num_data_bytes')))))"

text \<open>The check of lines 222 to 224 of \<^verbatim>\<open>StableContainer.deserialize\<close>, over
  \<^verbatim>\<open>range(len(cls._field_indices), cls.N)\<close>.\<close>

fun check_unknown_fields :: "bool list \<Rightarrow> nat list \<Rightarrow> error + unit" where
  "check_unknown_fields active_fields [] = Inr ()"
| "check_unknown_fields active_fields (findex # rest) =
     (case bv_get active_fields findex of
        Inl e \<Rightarrow> Inl e
      | Inr active \<Rightarrow>
         if active then Inl (Err Exception ''Unknown field index'')
         else check_unknown_fields active_fields rest)"

text \<open>Reading one present field in the first loop of both \<^verbatim>\<open>deserialize\<close> methods
  (lines 232 to 239 and 542 to 549): the state is the rest of the stream,
  \<^verbatim>\<open>field_values\<close>, \<^verbatim>\<open>dyn_fields\<close> and \<^verbatim>\<open>fixed_size\<close>. A field type reads \<open>fsize\<close>
  bytes from the stream.\<close>

type_synonym read_state =
  "byte list \<times> (string \<times> pyval) list \<times> (string \<times> ftype \<times> nat) list \<times> nat"

definition read_field :: "string \<Rightarrow> ftype \<Rightarrow> read_state \<Rightarrow> error + read_state" where
  "read_field fkey ftyp st =
     (case st of (stream, field_values, dyn_fields, fixed_size) \<Rightarrow>
        if is_fixed_byte_length ftyp
        then (let fsize = type_byte_length ftyp
              in case type_deserialize ftyp (take fsize stream) fsize of
                   Inl e \<Rightarrow> Inl e
                 | Inr v \<Rightarrow>
                    Inr (drop fsize stream, dict_set field_values fkey (PyView v),
                         dyn_fields, fixed_size + fsize))
        else Inr (drop OFFSET_BYTE_LENGTH stream, field_values,
                  dyn_fields @ [(fkey, ftyp, decode_offset stream)],
                  fixed_size + OFFSET_BYTE_LENGTH))"

text \<open>The first loop of \<^verbatim>\<open>StableContainer.deserialize\<close> (lines 229 to 239).\<close>

fun stable_read_loop ::
  "bool list \<Rightarrow> (string \<times> nat \<times> ftype) list \<Rightarrow> read_state \<Rightarrow> error + read_state" where
  "stable_read_loop active_fields [] st = Inr st"
| "stable_read_loop active_fields ((fkey, findex, ftyp) # rest) st =
     (case bv_get active_fields findex of
        Inl e \<Rightarrow> Inl e
      | Inr active \<Rightarrow>
         if \<not> active then stable_read_loop active_fields rest st
         else (case read_field fkey ftyp st of
                 Inl e \<Rightarrow> Inl e
               | Inr st' \<Rightarrow> stable_read_loop active_fields rest st'))"

text \<open>The loop over \<^verbatim>\<open>dyn_fields\<close> of both \<^verbatim>\<open>deserialize\<close> methods (lines 244 to 255
  and 555 to 566).\<close>

fun read_dyn_loop ::
  "(string \<times> ftype \<times> nat) list \<Rightarrow> nat \<Rightarrow> byte list \<Rightarrow> (string \<times> pyval) list \<Rightarrow>
   error + (string \<times> pyval) list" where
  "read_dyn_loop [] scope stream field_values = Inr field_values"
| "read_dyn_loop ((fkey, ftyp, foffset) # rest) scope stream field_values =
     (let next_offset = (case rest of [] \<Rightarrow> scope | (_, _, offset') # _ \<Rightarrow> offset')
      in if foffset > next_offset then Inl (Err Exception ''Offset is invalid'')
         else (let fsize = next_offset - foffset
               in if \<not> (min_byte_length ftyp \<le> fsize \<and> fsize \<le> max_byte_length ftyp)
                  then Inl (Err Exception ''Offset is invalid, size out of bounds'')
                  else (case type_deserialize ftyp (take fsize stream) fsize of
                          Inl e \<Rightarrow> Inl e
                        | Inr v \<Rightarrow>
                           read_dyn_loop rest scope (drop fsize stream)
                             (dict_set field_values fkey (PyView v)))))"

text \<open>Lines 240 to 255 and 551 to 566: the check of the first offset, then the loop.\<close>

definition read_dyn_fields ::
  "(string \<times> ftype \<times> nat) list \<Rightarrow> nat \<Rightarrow> nat \<Rightarrow> byte list \<Rightarrow> (string \<times> pyval) list \<Rightarrow>
   error + (string \<times> pyval) list" where
  "read_dyn_fields dyn_fields fixed_size scope stream field_values =
     (case dyn_fields of
        [] \<Rightarrow> Inr field_values
      | (fkey, ftyp, offset) # _ \<Rightarrow>
         if offset < fixed_size
         then Inl (Err Exception ''First offset is smaller than expected fixed size'')
         else read_dyn_loop dyn_fields scope stream field_values)"

text \<open>\<^verbatim>\<open>StableContainer.deserialize\<close> (lines 214 to 256): the backing of the decoded
  view.\<close>

definition stable_deserialize :: "stable_cls \<Rightarrow> byte list \<Rightarrow> nat \<Rightarrow> error + node" where
  "stable_deserialize cls stream scope =
     (let num_prefix_bytes = bv_type_byte_length (sc_N cls)
      in if scope < num_prefix_bytes
         then Inl (Err ValueError ''Scope too small for StableContainer active fields'')
         else (case bv_deserialize (sc_N cls) stream num_prefix_bytes of
                 Inl e \<Rightarrow> Inl e
               | Inr active_fields \<Rightarrow>
                  (case check_unknown_fields active_fields
                          [length (sc_field_indices cls)..<sc_N cls] of
                     Inl e \<Rightarrow> Inl e
                   | Inr _ \<Rightarrow>
                      (case stable_read_loop active_fields (sc_field_indices cls)
                              (drop num_prefix_bytes stream, [], [], 0) of
                         Inl e \<Rightarrow> Inl e
                       | Inr (stream', field_values, dyn_fields, fixed_size) \<Rightarrow>
                          (case read_dyn_fields dyn_fields fixed_size
                                  (scope - num_prefix_bytes) stream' field_values of
                             Inl e \<Rightarrow> Inl e
                           | Inr field_values' \<Rightarrow> stable_new cls None field_values')))))"

section \<open>Profile: construction and field access\<close>

text \<open>\<^verbatim>\<open>Profile._o\<close> is incremented once for every optional field when the class is
  created (lines 351 and 385 to 386), so it is the number of optional fields.\<close>

definition pf_o :: "profile_cls \<Rightarrow> nat" where
  "pf_o cls = length (filter (\<lambda>(fkey, findex, ftyp, fopt). fopt) (pf_field_indices cls))"

text \<open>Modelled from the spec: construction of a plain \<^verbatim>\<open>Container\<close> from keyword
  arguments (\<^verbatim>\<open>remerkleable.complex\<close>, not part of the source file): a bare data subtree
  of depth \<open>ceil(log2(field count))\<close> with one leaf per field in declaration order
  (sections 2 and 4.6); a missing field takes the default of its type.\<close>

fun container_new_loop ::
  "(string \<times> ftype) list \<Rightarrow> (string \<times> pyval) list \<Rightarrow> node list \<Rightarrow>
   error + ((string \<times> pyval) list \<times> node list)" where
  "container_new_loop [] kwargs input_nodes = Inr (kwargs, input_nodes)"
| "container_new_loop ((fkey, ftyp) # rest) kwargs input_nodes =
     (case map_of kwargs fkey of
        None \<Rightarrow> container_new_loop rest kwargs (input_nodes @ [default_node ftyp])
      | Some PyNone \<Rightarrow> Inl (Err TypeError ''cannot coerce None'')
      | Some (PyView fnode) \<Rightarrow>
          container_new_loop rest (dict_pop kwargs fkey) (input_nodes @ [fnode])
      | Some (PyRaw r) \<Rightarrow>
         (case coerce_view ftyp r of
            Inl e \<Rightarrow> Inl e
          | Inr fnode \<Rightarrow>
             container_new_loop rest (dict_pop kwargs fkey) (input_nodes @ [fnode])))"

definition container_new ::
  "container_cls \<Rightarrow> node option \<Rightarrow> (string \<times> pyval) list \<Rightarrow> error + node" where
  "container_new cls backing kwargs =
     (case backing of
        Some b \<Rightarrow>
          if length kwargs \<noteq> 0
          then Inl (Err Exception ''Cannot have both a backing and elements to init fields'')
          else Inr b
      | None \<Rightarrow>
         (case container_new_loop (ct_fields cls) kwargs [] of
            Inl e \<Rightarrow> Inl e
          | Inr (kwargs', input_nodes) \<Rightarrow>
             if length kwargs' > 0 then Inl (Err AttributeError ''Fields unknown'')
             else subtree_fill_to_contents input_nodes
                    (get_depth (length (ct_fields cls)))))"

text \<open>Modelled from the spec: \<^verbatim>\<open>ComplexView.get(i)\<close> and \<^verbatim>\<open>ComplexView.set(i, v)\<close> on a
  Profile over a plain Container, "read the leaf directly" and "rewrite the corresponding
  leaf" (section 4.2).\<close>

definition container_get :: "container_cls \<Rightarrow> node \<Rightarrow> nat \<Rightarrow> error + pyval" where
  "container_get cls backing findex =
     (case getter backing (2 ^ get_depth (length (ct_fields cls)) + findex) of
        Inl e \<Rightarrow> Inl e
      | Inr fnode \<Rightarrow> Inr (PyView fnode))"

definition container_set ::
  "container_cls \<Rightarrow> node \<Rightarrow> nat \<Rightarrow> pyval \<Rightarrow> (error + unit) \<times> node" where
  "container_set cls backing findex v =
     (if findex \<ge> length (ct_fields cls)
      then (Inl (Err IndexError ''list index out of range''), backing)
      else (case (case v of
                    PyNone \<Rightarrow> Inl (Err TypeError ''cannot coerce None'')
                  | PyView fnode \<Rightarrow> Inr fnode
                  | PyRaw r \<Rightarrow> coerce_view (snd (ct_fields cls ! findex)) r) of
              Inl e \<Rightarrow> (Inl e, backing)
            | Inr fnode \<Rightarrow>
               (case setter backing (2 ^ get_depth (length (ct_fields cls)) + findex) fnode of
                  Inl e \<Rightarrow> (Inl e, backing)
                | Inr next_backing \<Rightarrow> (Inr (), next_backing))))"

text \<open>The loop of \<^verbatim>\<open>Profile.__new__\<close> over the declared fields (lines 319 to 326).\<close>

fun profile_new_loop ::
  "(string \<times> nat \<times> ftype \<times> bool) list \<Rightarrow> (string \<times> pyval) list \<Rightarrow>
   error + (string \<times> pyval) list" where
  "profile_new_loop [] extra_kw = Inr extra_kw"
| "profile_new_loop ((fkey, findex, ftyp, fopt) # rest) extra_kw =
     (if map_of extra_kw fkey \<noteq> None then profile_new_loop rest (dict_pop extra_kw fkey)
      else if \<not> fopt then Inl (Err AttributeError ''Field is required'')
      else profile_new_loop rest extra_kw)"

text \<open>\<^verbatim>\<open>Profile.__new__\<close> (lines 313 to 331).\<close>

definition profile_new ::
  "profile_cls \<Rightarrow> node option \<Rightarrow> (string \<times> pyval) list \<Rightarrow> error + node" where
  "profile_new cls backing kwargs =
     (case backing of
        Some b \<Rightarrow>
          if length kwargs \<noteq> 0
          then Inl (Err Exception ''Cannot have both a backing and elements to init fields'')
          else Inr b
      | None \<Rightarrow>
         (case profile_new_loop (pf_field_indices cls) kwargs of
            Inl e \<Rightarrow> Inl e
          | Inr extra_kw \<Rightarrow>
             if length extra_kw > 0 then Inl (Err AttributeError ''Fields unknown'')
             else (case pf_B cls of
                     StableBase b \<Rightarrow> stable_new b None kwargs
                   | ContainerBase c \<Rightarrow> container_new c None kwargs)))"

text \<open>The loop of \<^verbatim>\<open>Profile.optional_fields\<close> (lines 467 to 470).\<close>

fun optional_fields_loop ::
  "bool list \<Rightarrow> (string \<times> nat \<times> ftype \<times> bool) list \<Rightarrow> bool list \<Rightarrow> nat \<Rightarrow>
   error + bool list" where
  "optional_fields_loop active_fields [] optional_fields oindex = Inr optional_fields"
| "optional_fields_loop active_fields ((fkey, findex, ftyp, fopt) # rest) optional_fields oindex =
     (if fopt
      then (case bv_get active_fields findex of
              Inl e \<Rightarrow> Inl e
            | Inr active \<Rightarrow>
               (case bv_set optional_fields oindex active of
                  Inl e \<Rightarrow> Inl e
                | Inr optional_fields' \<Rightarrow>
                   optional_fields_loop active_fields rest optional_fields' (oindex + 1)))
      else optional_fields_loop active_fields rest optional_fields oindex)"

text \<open>\<^verbatim>\<open>Profile.optional_fields\<close> (lines 459 to 471).\<close>

definition profile_optional_fields :: "profile_cls \<Rightarrow> node \<Rightarrow> error + bool list" where
  "profile_optional_fields cls backing =
     (case pf_B cls of
        ContainerBase c \<Rightarrow>
          Inl (Err Exception ''optional_fields requires Profile with StableContainer base'')
      | StableBase b \<Rightarrow>
          if pf_o cls = 0 then Inl (Err Exception ''does not have any Optional[T] fields'')
          else (case profile_active_fields cls backing of
                  Inl e \<Rightarrow> Inl e
                | Inr active_fields \<Rightarrow>
                   optional_fields_loop active_fields (pf_field_indices cls)
                     (bv_default (pf_o cls)) 0))"

text \<open>\<^verbatim>\<open>Profile.__getattr__\<close> (lines 478 to 494); the \<^verbatim>\<open>assert\<close> of line 493 is the
  last check.\<close>

definition profile_getattr ::
  "(string \<Rightarrow> node \<Rightarrow> error + pyval) \<Rightarrow> profile_cls \<Rightarrow> node \<Rightarrow> string \<Rightarrow> error + pyval" where
  "profile_getattr super_getattribute cls backing item =
     (case item of
        [] \<Rightarrow> Inl (Err IndexError ''string index out of range'')
      | c # _ \<Rightarrow>
         if c = CHR ''_'' then super_getattribute item backing
         else (case map_of (pf_field_indices cls) item of
                 None \<Rightarrow> Inl (Err AttributeError ''Unknown field'')
               | Some (findex, ftyp, fopt) \<Rightarrow>
                  (case (case pf_B cls of
                           StableBase b \<Rightarrow>
                             stable_get (ProfileSelf cls) backing findex ftyp (sc_N b)
                         | ContainerBase c \<Rightarrow> container_get c backing findex) of
                     Inl e \<Rightarrow> Inl e
                   | Inr v \<Rightarrow>
                      if \<not> (v \<noteq> PyNone \<or> fopt) then Inl (Err AssertionError [])
                      else Inr v)))"

text \<open>\<^verbatim>\<open>Profile.__setattr__\<close> (lines 496 to 511): the outcome and the backing of
  \<^verbatim>\<open>self\<close> afterwards.\<close>

definition profile_setattr ::
  "(string \<Rightarrow> pyval \<Rightarrow> node \<Rightarrow> (error + unit) \<times> node) \<Rightarrow>
   profile_cls \<Rightarrow> node \<Rightarrow> string \<Rightarrow> pyval \<Rightarrow> (error + unit) \<times> node" where
  "profile_setattr super_setattr cls backing key v =
     (case key of
        [] \<Rightarrow> (Inl (Err IndexError ''string index out of range''), backing)
      | c # _ \<Rightarrow>
         if c = CHR ''_'' then super_setattr key v backing
         else (case map_of (pf_field_indices cls) key of
                 None \<Rightarrow> (Inl (Err AttributeError ''Unknown field''), backing)
               | Some (findex, ftyp, fopt) \<Rightarrow>
                  if v = PyNone \<and> \<not> fopt
                  then (Inl (Err ValueError ''Field is required and cannot be set to None''),
                        backing)
                  else (case pf_B cls of
                          StableBase b \<Rightarrow>
                            stable_set (ProfileSelf cls) backing findex ftyp (sc_N b) v
                        | ContainerBase c \<Rightarrow> container_set c backing findex v)))"

section \<open>Profile: size reflection and the codec\<close>

text \<open>\<^verbatim>\<open>Profile.is_fixed_byte_length\<close>, \<^verbatim>\<open>min_byte_length\<close> and
  \<^verbatim>\<open>max_byte_length\<close> (lines 405 to 439).\<close>

definition profile_is_fixed_byte_length :: "profile_cls \<Rightarrow> bool" where
  "profile_is_fixed_byte_length cls =
     (if pf_o cls > 0 then False
      else list_all (\<lambda>(fkey, findex, ftyp, fopt). is_fixed_byte_length ftyp)
             (pf_field_indices cls))"

definition profile_prefix_length :: "profile_cls \<Rightarrow> nat" where
  "profile_prefix_length cls = (if pf_o cls > 0 then bv_type_byte_length (pf_o cls) else 0)"

fun profile_min_loop :: "(string \<times> nat \<times> ftype \<times> bool) list \<Rightarrow> nat \<Rightarrow> nat" where
  "profile_min_loop [] total_bytes = total_bytes"
| "profile_min_loop ((fkey, findex, ftyp, fopt) # rest) total_bytes =
     (if fopt then profile_min_loop rest total_bytes
      else profile_min_loop rest
             ((if \<not> is_fixed_byte_length ftyp then total_bytes + OFFSET_BYTE_LENGTH else total_bytes)
                + min_byte_length ftyp))"

definition profile_min_byte_length :: "profile_cls \<Rightarrow> nat" where
  "profile_min_byte_length cls =
     profile_min_loop (pf_field_indices cls) (profile_prefix_length cls)"

fun profile_max_loop :: "(string \<times> nat \<times> ftype \<times> bool) list \<Rightarrow> nat \<Rightarrow> nat" where
  "profile_max_loop [] total_bytes = total_bytes"
| "profile_max_loop ((fkey, findex, ftyp, fopt) # rest) total_bytes =
     profile_max_loop rest
       ((if \<not> is_fixed_byte_length ftyp then total_bytes + OFFSET_BYTE_LENGTH else total_bytes)
          + max_byte_length ftyp)"

definition profile_max_byte_length :: "profile_cls \<Rightarrow> nat" where
  "profile_max_byte_length cls =
     profile_max_loop (pf_field_indices cls) (profile_prefix_length cls)"

text \<open>The first loop of \<^verbatim>\<open>Profile.serialize\<close> (lines 576 to 589); \<^verbatim>\<open>optional_fields\<close>
  is read only for an optional field, and then \<^verbatim>\<open>_o > 0\<close> has bound it.\<close>

fun profile_count_loop ::
  "bool list \<Rightarrow> (string \<times> nat \<times> ftype \<times> bool) list \<Rightarrow> nat \<Rightarrow> nat \<times> bool \<Rightarrow>
   error + (nat \<times> nat \<times> bool)" where
  "profile_count_loop optional_fields [] oindex acc =
     Inr (oindex, acc)"
| "profile_count_loop optional_fields ((fkey, findex, ftyp, fopt) # rest) oindex acc =
     (if fopt
      then (case bv_get optional_fields oindex of
              Inl e \<Rightarrow> Inl e
            | Inr has_field \<Rightarrow>
               if \<not> has_field then profile_count_loop optional_fields rest (oindex + 1) acc
               else profile_count_loop optional_fields rest (oindex + 1)
                      (count_field ftyp acc))
      else profile_count_loop optional_fields rest oindex (count_field ftyp acc))"

text \<open>The second loop of \<^verbatim>\<open>Profile.serialize\<close> (lines 601 to 610); \<^verbatim>\<open>active_fields\<close>
  is bound, and consulted, only for a StableContainer base.\<close>

fun profile_write_loop ::
  "bool list option \<Rightarrow> bool \<Rightarrow> node \<Rightarrow> nat \<Rightarrow> (string \<times> nat \<times> ftype \<times> bool) list \<Rightarrow>
   byte list \<times> byte list \<times> nat \<Rightarrow> error + (byte list \<times> byte list \<times> nat)" where
  "profile_write_loop active_fields has_dyn_fields data n [] st = Inr st"
| "profile_write_loop active_fields has_dyn_fields data n ((fkey, findex, ftyp, fopt) # rest) st =
     (case (case active_fields of
              None \<Rightarrow> Inr True
            | Some af \<Rightarrow> bv_get af findex) of
        Inl e \<Rightarrow> Inl e
      | Inr active \<Rightarrow>
         if \<not> active then profile_write_loop active_fields has_dyn_fields data n rest st
         else (case write_field has_dyn_fields data n findex ftyp st of
                 Inl e \<Rightarrow> Inl e
               | Inr st' \<Rightarrow> profile_write_loop active_fields has_dyn_fields data n rest st'))"

text \<open>The start of \<^verbatim>\<open>Profile.serialize\<close> (lines 570 to 574): the optional-fields
  bitvector and the prefix written to the stream.\<close>

definition profile_write_prefix :: "profile_cls \<Rightarrow> node \<Rightarrow> error + (bool list \<times> byte list)" where
  "profile_write_prefix cls backing =
     (if pf_o cls > 0
      then (case profile_optional_fields cls backing of
              Inl e \<Rightarrow> Inl e
            | Inr optional_fields \<Rightarrow> Inr (optional_fields, bv_serialize optional_fields))
      else Inr ([], []))"

text \<open>Lines 594 to 600 of \<^verbatim>\<open>Profile.serialize\<close>: the data subtree, the active fields
  (bound only for a StableContainer base) and the capacity of the tree.\<close>

definition profile_data :: "profile_cls \<Rightarrow> node \<Rightarrow> error + (node \<times> bool list option \<times> nat)" where
  "profile_data cls backing =
     (case pf_B cls of
        StableBase b \<Rightarrow>
         (case get_left backing of
            Inl e \<Rightarrow> Inl e
          | Inr data \<Rightarrow>
             (case profile_active_fields cls backing of
                Inl e \<Rightarrow> Inl e
              | Inr active_fields \<Rightarrow> Inr (data, Some active_fields, sc_N b)))
      | ContainerBase c \<Rightarrow> Inr (backing, None, length (ct_fields c)))"

text \<open>\<^verbatim>\<open>Profile.serialize\<close> up to its second loop (lines 569 to 610): the prefix and
  the fixed section written to \<^verbatim>\<open>stream\<close>, the content of \<^verbatim>\<open>temp_dyn_stream\<close>,
  \<^verbatim>\<open>num_prefix_bytes\<close>, \<^verbatim>\<open>has_dyn_fields\<close> and \<^verbatim>\<open>num_data_bytes\<close>.\<close>

definition profile_serialize_parts ::
  "profile_cls \<Rightarrow> node \<Rightarrow> error + (byte list \<times> byte list \<times> byte list \<times> nat \<times> bool \<times> nat)" where
  "profile_serialize_parts cls backing =
     (case profile_write_prefix cls backing of
        Inl e \<Rightarrow> Inl e
      | Inr (optional_fields, prefix) \<Rightarrow>
         (let num_prefix_bytes = length prefix
          in case profile_count_loop optional_fields (pf_field_indices cls) 0 (0, False) of
               Inl e \<Rightarrow> Inl e
             | Inr (oindex, num_data_bytes, has_dyn_fields) \<Rightarrow>
                if oindex \<noteq> pf_o cls then Inl (Err AssertionError [])
                else (case profile_data cls backing of
                        Inl e \<Rightarrow> Inl e
                      | Inr (data, active_fields, n) \<Rightarrow>
                         (case profile_write_loop active_fields has_dyn_fields data n
                                 (pf_field_indices cls) ([], [], num_data_bytes) of
                            Inl e \<Rightarrow> Inl e
                          | Inr (stream, temp_dyn_stream, num_data_bytes') \<Rightarrow>
                             Inr (prefix, stream, temp_dyn_stream, num_prefix_bytes,
                                  has_dyn_fields, num_data_bytes')))))"

text \<open>\<^verbatim>\<open>Profile.serialize\<close> (lines 569 to 615): the bytes written to the stream and the
  returned count. The last write (line 613) is \<^verbatim>\<open>temp_dyn_stream.read(num_data_bytes)\<close>,
  at most \<^verbatim>\<open>num_data_bytes\<close> bytes of the side buffer.\<close>

definition profile_serialize :: "profile_cls \<Rightarrow> node \<Rightarrow> error + (byte list \<times> nat)" where
  "profile_serialize cls backing =
     (case profile_serialize_parts cls backing of
        Inl e \<Rightarrow> Inl e
      | Inr (prefix, stream, temp_dyn_stream, num_prefix_bytes, has_dyn_fields, num_data_bytes) \<Rightarrow>
         Inr (prefix @ stream @
                (if has_dyn_fields then take num_data_bytes temp_dyn_stream else []),
              num_prefix_bytes + num_data_bytes))"

text \<open>The first loop of \<^verbatim>\<open>Profile.deserialize\<close> (lines 535 to 549).\<close>

fun profile_read_loop ::
  "bool list \<Rightarrow> (string \<times> nat \<times> ftype \<times> bool) list \<Rightarrow> nat \<Rightarrow> read_state \<Rightarrow>
   error + (nat \<times> read_state)" where
  "profile_read_loop optional_fields [] oindex st = Inr (oindex, st)"
| "profile_read_loop optional_fields ((fkey, findex, ftyp, fopt) # rest) oindex st =
     (if fopt
      then (case bv_get optional_fields oindex of
              Inl e \<Rightarrow> Inl e
            | Inr has_field \<Rightarrow>
               if \<not> has_field
               then (case st of (stream, field_values, dyn_fields, fixed_size) \<Rightarrow>
                       profile_read_loop optional_fields rest (oindex + 1)
                         (stream, dict_set field_values fkey PyNone, dyn_fields, fixed_size))
               else (case read_field fkey ftyp st of
                       Inl e \<Rightarrow> Inl e
                     | Inr st' \<Rightarrow> profile_read_loop optional_fields rest (oindex + 1) st'))
      else (case read_field fkey ftyp st of
              Inl e \<Rightarrow> Inl e
            | Inr st' \<Rightarrow> profile_read_loop optional_fields rest oindex st'))"

text \<open>The start of \<^verbatim>\<open>Profile.deserialize\<close> (lines 524 to 529): the optional-fields
  bitvector, the rest of the stream and the remaining scope. Without optional fields
  nothing is read; \<^verbatim>\<open>optional_fields\<close> is then never consulted.\<close>

definition profile_read_prefix ::
  "profile_cls \<Rightarrow> byte list \<Rightarrow> nat \<Rightarrow> error + (bool list \<times> byte list \<times> nat)" where
  "profile_read_prefix cls stream scope =
     (if pf_o cls > 0
      then (let num_prefix_bytes = bv_type_byte_length (pf_o cls)
            in if scope < num_prefix_bytes
               then Inl (Err ValueError ''Scope too small for Profile optional fields'')
               else (case bv_deserialize (pf_o cls) stream num_prefix_bytes of
                       Inl e \<Rightarrow> Inl e
                     | Inr optional_fields \<Rightarrow>
                        Inr (optional_fields, drop num_prefix_bytes stream,
                             scope - num_prefix_bytes)))
      else Inr ([], stream, scope))"

text \<open>\<^verbatim>\<open>Profile.deserialize\<close> (lines 522 to 567).\<close>

definition profile_deserialize :: "profile_cls \<Rightarrow> byte list \<Rightarrow> nat \<Rightarrow> error + node" where
  "profile_deserialize cls stream scope =
     (case profile_read_prefix cls stream scope of
        Inl e \<Rightarrow> Inl e
      | Inr (optional_fields, stream', scope') \<Rightarrow>
         (case profile_read_loop optional_fields (pf_field_indices cls) 0
                 (stream', [], [], 0) of
            Inl e \<Rightarrow> Inl e
          | Inr (oindex, stream'', field_values, dyn_fields, fixed_size) \<Rightarrow>
             if oindex \<noteq> pf_o cls then Inl (Err AssertionError [])
             else (case read_dyn_fields dyn_fields fixed_size scope' stream'' field_values of
                     Inl e \<Rightarrow> Inl e
                   | Inr field_values' \<Rightarrow> profile_new cls None field_values')))"

section \<open>Shapes and well-formed values\<close>

text \<open>A tree is perfect to depth \<open>d\<close> when every path of length \<open>d\<close> from its root exists
  (Invariant A3, the tree shape); what hangs below depth \<open>d\<close> is the content of a leaf.\<close>

fun perfect :: "nat \<Rightarrow> node \<Rightarrow> bool" where
  "perfect 0 t = True"
| "perfect (Suc d) (PairNode l r) = (perfect d l \<and> perfect d r)"
| "perfect (Suc d) (RootNode bs) = False"

text \<open>A well-formed StableContainer class, as \<^verbatim>\<open>__init_subclass__\<close> builds it: a
  positive capacity, at most that many fields, numbered by their position, with distinct
  names. A field name starts with a character other than the underscore, so that
  \<^verbatim>\<open>__getattr__\<close> and \<^verbatim>\<open>__setattr__\<close> reach the field.\<close>

definition wf_stable_cls :: "stable_cls \<Rightarrow> bool" where
  "wf_stable_cls cls =
     (0 < sc_N cls \<and> length (sc_field_indices cls) \<le> sc_N cls
      \<and> map (\<lambda>(fkey, findex, ftyp). findex) (sc_field_indices cls)
           = [0..<length (sc_field_indices cls)]
      \<and> distinct (map fst (sc_field_indices cls))
      \<and> list_all (\<lambda>(fkey, findex, ftyp). fkey \<noteq> [] \<and> hd fkey \<noteq> CHR ''_'')
            (sc_field_indices cls))"

text \<open>A sequence of assignment statements \<^verbatim>\<open>self.key = v\<close>; the sequence stops at the
  first statement that raises.\<close>

fun stable_setattr_seq ::
  "(string \<Rightarrow> pyval \<Rightarrow> node \<Rightarrow> (error + unit) \<times> node) \<Rightarrow>
   stable_cls \<Rightarrow> node \<Rightarrow> (string \<times> pyval) list \<Rightarrow> (error + unit) \<times> node" where
  "stable_setattr_seq super_setattr cls backing [] = (Inr (), backing)"
| "stable_setattr_seq super_setattr cls backing ((key, v) # rest) =
     (case stable_setattr super_setattr cls backing key v of
        (Inl e, backing') \<Rightarrow> (Inl e, backing')
      | (Inr _, backing') \<Rightarrow> stable_setattr_seq super_setattr cls backing' rest)"

text \<open>The value found for a field among the keyword arguments
  (\<^verbatim>\<open>kwargs.pop(fkey) if fkey in kwargs else None\<close>), and the active bits that
  \<^verbatim>\<open>StableContainer.__new__\<close> sets for a list of fields.\<close>

definition kw_lookup :: "(string \<times> pyval) list \<Rightarrow> string \<Rightarrow> pyval" where
  "kw_lookup kwargs fkey = (case map_of kwargs fkey of Some v \<Rightarrow> v | None \<Rightarrow> PyNone)"

definition new_bits ::
  "(string \<times> pyval) list \<Rightarrow> (string \<times> nat \<times> ftype) list \<Rightarrow> bool list \<Rightarrow> bool list" where
  "new_bits kwargs fs af =
     fold (\<lambda>(fkey, findex, ftyp) a. a[findex := (kw_lookup kwargs fkey \<noteq> PyNone)]) fs af"

text \<open>Presence coherence in the direction that holds: the backing is a pair of a data
  subtree of the right depth and a bitvector, and the leaf of every inactive position is
  the zero leaf.\<close>

definition presence_coherent :: "stable_cls \<Rightarrow> node \<Rightarrow> bool" where
  "presence_coherent cls backing =
     (\<exists>data right active_fields.
        backing = PairNode data right
      \<and> perfect (get_depth (sc_N cls)) data
      \<and> bv_view_from_backing (sc_N cls) right = Inr active_fields
      \<and> (\<forall>i < sc_N cls. \<not> active_fields ! i \<longrightarrow>
            getter data (2 ^ get_depth (sc_N cls) + i) = Inr (zero_node 0)))"
section \<open>Example schemas and values\<close>

text \<open>The schemas of the scenarios of section 8 of the specification, with capacity 4.\<close>

definition ex_annotations :: "(string \<times> ftype) list" where
  "ex_annotations = [(''a'', uint_type 2), (''b'', byte_list_type 8), (''c'', uint_type 1)]"

definition ex_stable :: stable_cls where
  "ex_stable = \<lparr>sc_N = 4, sc_field_indices =
     [(''a'', 0, uint_type 2), (''b'', 1, byte_list_type 8), (''c'', 2, uint_type 1)]\<rparr>"

definition ex_container :: container_cls where
  "ex_container = \<lparr>ct_fields = [(''x'', uint_type 2), (''y'', uint_type 4), (''z'', uint_type 1)]\<rparr>"

definition ex_container_profile :: profile_cls where
  "ex_container_profile = \<lparr>pf_B = ContainerBase ex_container, pf_field_indices =
     [(''x'', 0, uint_type 2, False), (''y'', 1, uint_type 4, False),
      (''z'', 2, uint_type 1, False)]\<rparr>"

definition ex_profile :: profile_cls where
  "ex_profile = \<lparr>pf_B = StableBase ex_stable, pf_field_indices =
     [(''a'', 0, uint_type 2, False), (''b'', 1, byte_list_type 8, True)]\<rparr>"

text \<open>Backings of \<open>ex_stable\<close>: \<open>a = 7\<close> alone, \<open>b = [1, 2, 3]\<close> alone, and both.\<close>

definition ex_backing_a :: node where
  "ex_backing_a = PairNode
      (PairNode
        (PairNode (RootNode (pad_chunk [7, 0])) (zero_node 0))
        (PairNode (zero_node 0) (zero_node 0)))
      (RootNode (pad_chunk [1]))"

definition ex_backing_b :: node where
  "ex_backing_b = PairNode
      (PairNode
        (PairNode (zero_node 0)
           (PairNode (RootNode (pad_chunk [1, 2, 3])) (RootNode (pad_chunk [3]))))
        (PairNode (zero_node 0) (zero_node 0)))
      (RootNode (pad_chunk [2]))"

definition ex_backing_ab :: node where
  "ex_backing_ab = PairNode
      (PairNode
        (PairNode (RootNode (pad_chunk [7, 0]))
           (PairNode (RootNode (pad_chunk [1, 2, 3])) (RootNode (pad_chunk [3]))))
        (PairNode (zero_node 0) (zero_node 0)))
      (RootNode (pad_chunk [3]))"

definition ex_data_ab :: node where
  "ex_data_ab = PairNode
        (PairNode (RootNode (pad_chunk [7, 0]))
           (PairNode (RootNode (pad_chunk [1, 2, 3])) (RootNode (pad_chunk [3]))))
        (PairNode (zero_node 0) (zero_node 0))"

text \<open>Encodings of \<open>a = 7, b = ...\<close> whose first offset is 7, one more than the size 6 of the
  fixed section, and 5, one less; and the backing decoded from the first.\<close>

definition ex_input_gap :: "byte list" where
  "ex_input_gap = [3, 7, 0, 7, 0, 0, 0, 255, 1, 2, 3]"

definition ex_decoded_gap :: node where
  "ex_decoded_gap = PairNode
      (PairNode
        (PairNode (RootNode (pad_chunk [7, 0]))
           (PairNode (RootNode (pad_chunk [255, 1, 2])) (RootNode (pad_chunk [3]))))
        (PairNode (zero_node 0) (zero_node 0)))
      (RootNode (pad_chunk [3]))"

definition ex_input_overlap :: "byte list" where
  "ex_input_overlap = [3, 7, 0, 5, 0, 0, 0, 1, 2, 3]"

definition ex_profile_input_overlap :: "byte list" where
  "ex_profile_input_overlap = [1, 7, 0, 5, 0, 0, 0, 1, 2, 3]"

text \<open>Data subtrees of the backings above, the backing of \<open>a = 0\<close>, and a base class
  that rejects every assignment to a name with a leading underscore.\<close>

definition ex_data_zero :: node where
  "ex_data_zero = PairNode
        (PairNode (RootNode (pad_chunk [0, 0])) (zero_node 0))
        (PairNode (zero_node 0) (zero_node 0))"

definition ex_backing_zero :: node where
  "ex_backing_zero = PairNode ex_data_zero (RootNode (pad_chunk [1]))"

definition ex_data_a :: node where
  "ex_data_a = PairNode
        (PairNode (RootNode (pad_chunk [7, 0])) (zero_node 0))
        (PairNode (zero_node 0) (zero_node 0))"

definition ex_data_b :: node where
  "ex_data_b = PairNode
        (PairNode (zero_node 0)
           (PairNode (RootNode (pad_chunk [1, 2, 3])) (RootNode (pad_chunk [3]))))
        (PairNode (zero_node 0) (zero_node 0))"

definition ex_super_setattr :: "string \<Rightarrow> pyval \<Rightarrow> node \<Rightarrow> (error + unit) \<times> node" where
  "ex_super_setattr key v backing = (Inl (Err AttributeError key), backing)"
section \<open>Properties of the tree substrate\<close>

lemma get_depth_upper: "n \<le> 2 ^ get_depth n"
proof (induction n rule: get_depth.induct)
  case (1 n)
  show ?case
  proof (cases "n \<le> 1")
    case True
    then show ?thesis by (simp add: get_depth.simps)
  next
    case False
    with 1 have "(n + 1) div 2 \<le> 2 ^ get_depth ((n + 1) div 2)" by simp
    then have "n \<le> 2 * 2 ^ get_depth ((n + 1) div 2)" by arith
    with False show ?thesis by (simp add: get_depth.simps [of n])
  qed
qed

lemma get_depth_ceiling_log2: "0 < n \<Longrightarrow> int (get_depth n) = \<lceil>log 2 (real n)\<rceil>"
proof (induction n rule: get_depth.induct)
  case (1 n)
  show ?case
  proof (cases "n \<le> 1")
    case True
    with 1 have "n = 1" by simp
    then show ?thesis by (simp add: get_depth.simps)
  next
    case False
    then have n2: "2 \<le> n" by simp
    have eq: "(n - 1) div 2 + 1 = (n + 1) div 2" using n2 by arith
    have "int (get_depth ((n + 1) div 2)) = \<lceil>log 2 (real ((n + 1) div 2))\<rceil>"
      using 1 False by simp
    moreover have "\<lceil>log 2 (real n)\<rceil> = \<lceil>log 2 (real ((n + 1) div 2))\<rceil> + 1"
      using ceiling_log2_div2 [OF n2] by (simp only: eq)
    moreover have "get_depth n = Suc (get_depth ((n + 1) div 2))"
      using False by (simp add: get_depth.simps [of n])
    ultimately show ?thesis by simp
  qed
qed

lemma getter_one [simp]: "getter n (Suc 0) = Inr n"
  by (simp add: getter.simps)

lemma getter_step:
  "2 \<le> g \<Longrightarrow> getter n g =
     (case getter n (g div 2) of Inl e \<Rightarrow> Inl e
      | Inr p \<Rightarrow> (if even g then get_left p else get_right p))"
  by (subst getter.simps) simp

lemma setter_one [simp]: "setter n (Suc 0) v = Inr v"
  by (simp add: setter.simps)

lemma setter_step:
  "2 \<le> g \<Longrightarrow> setter n g v =
     (case getter n (g div 2) of Inl e \<Rightarrow> Inl e
      | Inr p \<Rightarrow> (case (if even g then rebind_left p v else rebind_right p v) of
                    Inl e \<Rightarrow> Inl e
                  | Inr p' \<Rightarrow> setter n (g div 2) p'))"
  by (subst setter.simps) simp

lemma gindex_half: "(2 ^ Suc d + i) div 2 = 2 ^ d + i div (2::nat)"
  by simp

lemma gindex_ge2: "2 \<le> 2 ^ Suc d + (i::nat)"
proof -
  have "(1::nat) \<le> 2 ^ d" by simp
  then have "2 \<le> 2 * 2 ^ d + i" by arith
  then show ?thesis by (simp only: power_Suc)
qed

lemma getter_Pair:
  "i < 2 ^ Suc d \<Longrightarrow>
   getter (PairNode l r) (2 ^ Suc d + i) =
     (if i < 2 ^ d then getter l (2 ^ d + i) else getter r (2 ^ d + (i - 2 ^ d)))"
proof (induction d arbitrary: i)
  case 0
  then have "i = 0 \<or> i = 1" by auto
  then show ?case
    by (auto simp: getter_step get_left_def get_right_def)
next
  case (Suc d)
  let ?g = "2 ^ Suc (Suc d) + i"
  have half: "?g div 2 = 2 ^ Suc d + i div 2" by simp
  have ev: "even ?g = even i" by simp
  have i2: "i div 2 < 2 ^ Suc d" using Suc.prems by simp
  have g2: "2 \<le> ?g" by (rule gindex_ge2)
  have ev1: "even (2 ^ Suc d + i) = even i" by simp
  show ?case
  proof (cases "i < 2 ^ Suc d")
    case True
    then have lt: "i div 2 < 2 ^ d" by simp
    have "getter l (2 ^ Suc d + i) =
      (case getter l (2 ^ d + i div 2) of Inl e \<Rightarrow> Inl e
       | Inr p \<Rightarrow> (if even i then get_left p else get_right p))"
      by (subst getter_step [OF gindex_ge2]) (simp only: gindex_half ev1)
    then show ?thesis
      using True lt Suc.IH [OF i2]
      by (simp only: getter_step [OF g2] half ev if_True)
  next
    case False
    then have ge: "\<not> i div 2 < 2 ^ d" by simp
    have sub: "(i - 2 ^ Suc d) div 2 = i div 2 - 2 ^ d" by simp
    have ev2: "even (2 ^ Suc d + (i - 2 ^ Suc d)) = even i" using False by simp
    have "getter r (2 ^ Suc d + (i - 2 ^ Suc d)) =
      (case getter r (2 ^ d + (i div 2 - 2 ^ d)) of Inl e \<Rightarrow> Inl e
       | Inr p \<Rightarrow> (if even i then get_left p else get_right p))"
      by (subst getter_step [OF gindex_ge2]) (simp only: gindex_half sub ev2)
    then show ?thesis
      using False ge Suc.IH [OF i2]
      by (simp only: getter_step [OF g2] half ev if_False)
  qed
qed


lemma setter_Pair:
  "i < 2 ^ Suc d \<Longrightarrow>
   setter (PairNode l r) (2 ^ Suc d + i) v =
     (if i < 2 ^ d
      then (case setter l (2 ^ d + i) v of Inl e \<Rightarrow> Inl e | Inr l' \<Rightarrow> Inr (PairNode l' r))
      else (case setter r (2 ^ d + (i - 2 ^ d)) v of Inl e \<Rightarrow> Inl e
            | Inr r' \<Rightarrow> Inr (PairNode l r')))"
proof (induction d arbitrary: i v)
  case 0
  then have "i = 0 \<or> i = 1" by auto
  then show ?case
    by (auto simp: setter_step rebind_left_def rebind_right_def)
next
  case (Suc d)
  let ?g = "2 ^ Suc (Suc d) + i"
  have half: "?g div 2 = 2 ^ Suc d + i div 2" by simp
  have ev: "even ?g = even i" by simp
  have i2: "i div 2 < 2 ^ Suc d" using Suc.prems by simp
  have g2: "2 \<le> ?g" by (rule gindex_ge2)
  have ev1: "even (2 ^ Suc d + i) = even i" by simp
  show ?case
  proof (cases "i < 2 ^ Suc d")
    case True
    then have lt: "i div 2 < 2 ^ d" by simp
    have R: "setter l (2 ^ Suc d + i) v =
      (case getter l (2 ^ d + i div 2) of Inl e \<Rightarrow> Inl e
       | Inr p \<Rightarrow> (case (if even i then rebind_left p v else rebind_right p v) of
                    Inl e \<Rightarrow> Inl e
                  | Inr p' \<Rightarrow> setter l (2 ^ d + i div 2) p'))"
      by (subst setter_step [OF gindex_ge2]) (simp only: gindex_half ev1)
    have G: "getter (PairNode l r) (2 ^ Suc d + i div 2) = getter l (2 ^ d + i div 2)"
      using getter_Pair [OF i2] lt by simp
    have S: "\<And>p'. setter (PairNode l r) (2 ^ Suc d + i div 2) p' =
       (case setter l (2 ^ d + i div 2) p' of Inl e \<Rightarrow> Inl e
        | Inr l' \<Rightarrow> Inr (PairNode l' r))"
      using Suc.IH [OF i2] lt by simp
    show ?thesis
      using True
      by (simp only: setter_step [OF g2] half ev G S R if_True)
         (simp split: sum.splits)
  next
    case False
    then have ge: "\<not> i div 2 < 2 ^ d" by simp
    have sub: "(i - 2 ^ Suc d) div 2 = i div 2 - 2 ^ d" by simp
    have ev2: "even (2 ^ Suc d + (i - 2 ^ Suc d)) = even i" using False by simp
    have R: "setter r (2 ^ Suc d + (i - 2 ^ Suc d)) v =
      (case getter r (2 ^ d + (i div 2 - 2 ^ d)) of Inl e \<Rightarrow> Inl e
       | Inr p \<Rightarrow> (case (if even i then rebind_left p v else rebind_right p v) of
                    Inl e \<Rightarrow> Inl e
                  | Inr p' \<Rightarrow> setter r (2 ^ d + (i div 2 - 2 ^ d)) p'))"
      by (subst setter_step [OF gindex_ge2]) (simp only: gindex_half sub ev2)
    have G: "getter (PairNode l r) (2 ^ Suc d + i div 2) = getter r (2 ^ d + (i div 2 - 2 ^ d))"
      using getter_Pair [OF i2] ge by simp
    have S: "\<And>p'. setter (PairNode l r) (2 ^ Suc d + i div 2) p' =
       (case setter r (2 ^ d + (i div 2 - 2 ^ d)) p' of Inl e \<Rightarrow> Inl e
        | Inr r' \<Rightarrow> Inr (PairNode l r'))"
      using Suc.IH [OF i2] ge by simp
    show ?thesis
      using False
      by (simp only: setter_step [OF g2] half ev G S R if_False)
         (simp split: sum.splits)
  qed
qed

lemma getter_Pair_simp:
  "i < 2 * 2 ^ d \<Longrightarrow>
   getter (PairNode l r) (2 * 2 ^ d + i) =
     (if i < 2 ^ d then getter l (2 ^ d + i) else getter r i)"
  using getter_Pair [of i d l r] by simp

lemma setter_Pair_simp:
  "i < 2 * 2 ^ d \<Longrightarrow>
   setter (PairNode l r) (2 * 2 ^ d + i) v =
     (if i < 2 ^ d
      then (case setter l (2 ^ d + i) v of Inl e \<Rightarrow> Inl e | Inr l' \<Rightarrow> Inr (PairNode l' r))
      else (case setter r i v of Inl e \<Rightarrow> Inl e | Inr r' \<Rightarrow> Inr (PairNode l r')))"
  using setter_Pair [of i d l r v] by simp

lemma getter_perfect:
  "perfect d t \<Longrightarrow> i < 2 ^ d \<Longrightarrow> \<exists>x. getter t (2 ^ d + i) = Inr x"
proof (induction d t arbitrary: i rule: perfect.induct)
  case (1 t)
  then show ?case by simp
next
  case (2 d l r)
  show ?case
  proof (cases "i < 2 ^ d")
    case True
    then show ?thesis using 2 by (simp add: getter_Pair_simp)
  next
    case False
    then have "i - 2 ^ d < 2 ^ d" using "2.prems" by simp
    with "2.IH"(2) "2.prems" obtain x where "getter r (2 ^ d + (i - 2 ^ d)) = Inr x"
      by auto
    then show ?thesis using False "2.prems" by (simp add: getter_Pair_simp)
  qed
next
  case (3 d bs)
  then show ?case by simp
qed

lemma setter_perfect:
  "perfect d t \<Longrightarrow> i < 2 ^ d \<Longrightarrow>
   \<exists>t'. setter t (2 ^ d + i) v = Inr t' \<and> perfect d t' \<and>
     (\<forall>j < 2 ^ d. getter t' (2 ^ d + j) = (if j = i then Inr v else getter t (2 ^ d + j)))"
proof (induction d t arbitrary: i rule: perfect.induct)
  case (1 t)
  then show ?case by simp
next
  case (2 d l r)
  have i2: "i < 2 * 2 ^ d" using "2.prems" by simp
  show ?case
  proof (cases "i < 2 ^ d")
    case True
    from "2.IH"(1) [OF _ True] "2.prems" obtain l' where
      l': "setter l (2 ^ d + i) v = Inr l'" "perfect d l'"
      "\<forall>j < 2 ^ d. getter l' (2 ^ d + j) = (if j = i then Inr v else getter l (2 ^ d + j))"
      by auto
    have "setter (PairNode l r) (2 ^ Suc d + i) v = Inr (PairNode l' r)"
      using setter_Pair_simp [OF i2] True l'(1) by simp
    moreover have "perfect (Suc d) (PairNode l' r)" using l'(2) "2.prems" by simp
    moreover have "\<forall>j < 2 ^ Suc d. getter (PairNode l' r) (2 ^ Suc d + j) =
        (if j = i then Inr v else getter (PairNode l r) (2 ^ Suc d + j))"
    proof (intro allI impI)
      fix j :: nat assume "j < 2 ^ Suc d"
      then have j: "j < 2 * 2 ^ d" by simp
      show "getter (PairNode l' r) (2 ^ Suc d + j) =
        (if j = i then Inr v else getter (PairNode l r) (2 ^ Suc d + j))"
        using l'(3) True by (auto simp: getter_Pair_simp [OF j])
    qed
    ultimately show ?thesis by blast
  next
    case False
    then have lt: "i - 2 ^ d < 2 ^ d" using "2.prems" by simp
    have rejoin: "2 ^ d + (i - 2 ^ d) = i" using False by simp
    from "2.IH"(2) [OF _ lt] "2.prems" obtain r' where
      r': "setter r i v = Inr r'" "perfect d r'"
      "\<forall>j < 2 ^ d. getter r' (2 ^ d + j) =
          (if j = i - 2 ^ d then Inr v else getter r (2 ^ d + j))"
      by (auto simp: rejoin)
    have "setter (PairNode l r) (2 ^ Suc d + i) v = Inr (PairNode l r')"
      using setter_Pair_simp [OF i2] False r'(1) by simp
    moreover have "perfect (Suc d) (PairNode l r')" using r'(2) "2.prems" by simp
    moreover have "\<forall>j < 2 ^ Suc d. getter (PairNode l r') (2 ^ Suc d + j) =
        (if j = i then Inr v else getter (PairNode l r) (2 ^ Suc d + j))"
    proof (intro allI impI)
      fix j :: nat assume "j < 2 ^ Suc d"
      then have j: "j < 2 * 2 ^ d" by simp
      show "getter (PairNode l r') (2 ^ Suc d + j) =
        (if j = i then Inr v else getter (PairNode l r) (2 ^ Suc d + j))"
      proof (cases "j < 2 ^ d")
        case True
        then show ?thesis using False by (auto simp: getter_Pair_simp [OF j])
      next
        case jf: False
        then have "j - 2 ^ d < 2 ^ d" using j by simp
        with r'(3) have "getter r' (2 ^ d + (j - 2 ^ d)) =
          (if j - 2 ^ d = i - 2 ^ d then Inr v else getter r (2 ^ d + (j - 2 ^ d)))"
          by blast
        moreover have "(j - 2 ^ d = i - 2 ^ d) = (j = i)" using jf False by auto
        moreover have "2 ^ d + (j - 2 ^ d) = j" using jf by simp
        ultimately show ?thesis using jf by (simp add: getter_Pair_simp [OF j])
      qed
    qed
    ultimately show ?thesis by blast
  qed
next
  case (3 d bs)
  then show ?case by simp
qed

lemma fill_empty: "subtree_fill_to_contents [] d = Inr (zero_node d)"
  by (induction d) simp_all

lemma fill_perfect:
  "subtree_fill_to_contents nodes d = Inr t \<Longrightarrow> perfect d t"
  by (induction d arbitrary: nodes t) (auto split: sum.splits)

lemma fill_ok:
  "length nodes \<le> 2 ^ d \<Longrightarrow> \<exists>t. subtree_fill_to_contents nodes d = Inr t"
proof (induction d arbitrary: nodes)
  case 0
  then show ?case by (cases nodes) (auto split: list.splits)
next
  case (Suc d)
  have "length (take (2 ^ d) nodes) \<le> 2 ^ d" by simp
  with Suc.IH obtain l where l: "subtree_fill_to_contents (take (2 ^ d) nodes) d = Inr l"
    by blast
  have "length (drop (2 ^ d) nodes) \<le> 2 ^ d" using Suc.prems by simp
  with Suc.IH obtain r where r: "subtree_fill_to_contents (drop (2 ^ d) nodes) d = Inr r"
    by blast
  show ?case using l r by simp
qed

lemma getter_fill:
  "subtree_fill_to_contents nodes d = Inr t \<Longrightarrow> i < 2 ^ d \<Longrightarrow>
   getter t (2 ^ d + i) = Inr (if i < length nodes then nodes ! i else zero_node 0)"
proof (induction d arbitrary: nodes t i)
  case 0
  then show ?case by (auto split: list.splits)
next
  case (Suc d)
  from Suc.prems(1) obtain l r where
    l: "subtree_fill_to_contents (take (2 ^ d) nodes) d = Inr l" and
    r: "subtree_fill_to_contents (drop (2 ^ d) nodes) d = Inr r" and
    t: "t = PairNode l r"
    by (auto split: sum.splits)
  have i2: "i < 2 * 2 ^ d" using Suc.prems(2) by simp
  show ?case
  proof (cases "i < 2 ^ d")
    case True
    then show ?thesis
      using Suc.IH [OF l True] by (simp add: t getter_Pair_simp [OF i2])
  next
    case False
    then have lt: "i - 2 ^ d < 2 ^ d" using Suc.prems(2) by simp
    have rejoin: "2 ^ d + (i - 2 ^ d) = i" using False by simp
    have "(i - 2 ^ d < length nodes - 2 ^ d) = (i < length nodes)" using False by auto
    then show ?thesis
      using Suc.IH [OF r lt] False
      by (simp add: t getter_Pair_simp [OF i2] rejoin)
  qed
qed

lemma fill_length:
  "subtree_fill_to_contents nodes d = Inr t \<Longrightarrow> length nodes \<le> 2 ^ d"
proof (induction d arbitrary: nodes t)
  case 0
  then show ?case by (auto split: list.splits)
next
  case (Suc d)
  from Suc.prems obtain l r where
    l: "subtree_fill_to_contents (take (2 ^ d) nodes) d = Inr l" and
    r: "subtree_fill_to_contents (drop (2 ^ d) nodes) d = Inr r"
    by (auto split: sum.splits)
  from Suc.IH [OF r] show ?case by simp
qed

section \<open>Schemas\<close>

lemma map_of_enumerate_fields:
  "distinct (map fst xs) \<Longrightarrow> i < length xs \<Longrightarrow>
   map_of (map (\<lambda>(findex, (fkey, t)). (fkey, findex, t)) (enumerate k xs)) (fst (xs ! i))
     = Some (k + i, snd (xs ! i))"
proof (induction xs arbitrary: k i)
  case Nil
  then show ?case by simp
next
  case (Cons x xs)
  obtain fkey t where x: "x = (fkey, t)" by (cases x)
  show ?case
  proof (cases i)
    case 0
    then show ?thesis by (simp add: x)
  next
    case (Suc j)
    with Cons.prems have j: "j < length xs" and d: "distinct (map fst xs)" by simp_all
    have "fst (xs ! j) \<in> set (map fst xs)" using j by simp
    with Cons.prems(1) have ne: "fst (xs ! j) \<noteq> fkey" by (auto simp: x)
    show ?thesis using Cons.IH [OF d j, of "Suc k"] ne by (simp add: x Suc)
  qed
qed

lemma get_depth_nat_ceiling_log2:
  "0 < n \<Longrightarrow> get_depth n = nat \<lceil>log 2 (real n)\<rceil>"
  using get_depth_ceiling_log2 [of n] by linarith

section \<open>The codec loops\<close>

lemma bytes_to_bits_length [simp]: "length (bytes_to_bits bytes) = 8 * length bytes"
  by (simp add: bytes_to_bits_def)

lemma bv_deserialize_length:
  "bv_deserialize k stream scope = Inr bs \<Longrightarrow> length bs = k"
  by (auto simp: bv_deserialize_def Let_def bv_type_byte_length_def split: if_splits)

lemma check_unknown_fields_iff:
  "\<forall>i \<in> set idxs. i < length active_fields \<Longrightarrow>
   check_unknown_fields active_fields idxs =
     (if \<exists>i \<in> set idxs. active_fields ! i then Inl (Err Exception ''Unknown field index'')
      else Inr ())"
  by (induction idxs) (auto simp: bv_get_def)

lemma write_field_temp_length:
  "write_field has_dyn_fields data n findex ftyp (stream, temp, num) = Inr (stream', temp', num')
   \<Longrightarrow> length temp \<le> num \<Longrightarrow> length temp' \<le> num'"
  by (auto simp: write_field_def split: sum.splits if_splits)

lemma write_field_no_dyn:
  "write_field False data n findex ftyp (stream, temp, num) = Inr (stream', temp', num')
   \<Longrightarrow> temp' = temp"
  by (auto simp: write_field_def split: sum.splits if_splits)

lemma profile_write_loop_temp_length:
  "profile_write_loop active_fields has_dyn_fields data n fs (stream, temp, num)
     = Inr (stream', temp', num')
   \<Longrightarrow> length temp \<le> num \<Longrightarrow> length temp' \<le> num'"
proof (induction fs arbitrary: stream temp num)
  case Nil
  then show ?case by simp
next
  case (Cons f fs)
  obtain fkey findex ftyp fopt where f: "f = (fkey, findex, ftyp, fopt)" by (cases f)
  show ?case
    using Cons.prems Cons.IH
    by (auto simp: f split: sum.splits if_splits option.splits
             dest: write_field_temp_length)
qed

lemma profile_write_loop_no_dyn:
  "profile_write_loop active_fields False data n fs (stream, temp, num)
     = Inr (stream', temp', num')
   \<Longrightarrow> temp' = temp"
proof (induction fs arbitrary: stream temp num)
  case Nil
  then show ?case by simp
next
  case (Cons f fs)
  obtain fkey findex ftyp fopt where f: "f = (fkey, findex, ftyp, fopt)" by (cases f)
  show ?case
    using Cons.prems Cons.IH
    by (auto simp: f split: sum.splits if_splits option.splits
             dest: write_field_no_dyn)
qed

lemma profile_read_loop_oindex:
  "profile_read_loop optional_fields fs oindex st = Inr (oindex', st') \<Longrightarrow>
   oindex' = oindex + length (filter (\<lambda>(fkey, findex, ftyp, fopt). fopt) fs)"
proof (induction fs arbitrary: oindex st)
  case Nil
  then show ?case by simp
next
  case (Cons f fs)
  obtain fkey findex ftyp fopt where f: "f = (fkey, findex, ftyp, fopt)" by (cases f)
  obtain stream fv dyn fixed_size where st: "st = (stream, fv, dyn, fixed_size)"
    by (cases st)
  show ?case
    using Cons.prems
    by (auto simp: f st split: sum.splits if_splits dest!: Cons.IH)
qed

section \<open>Bitvectors\<close>

lemma bits_to_bytes_length [simp]: "length (bits_to_bytes bs) = (length bs + 7) div 8"
  by (simp add: bits_to_bytes_def)

lemma bytes_to_chunks_length [simp]:
  "length (bytes_to_chunks bytes) = (length bytes + 31) div 32"
  by (simp add: bytes_to_chunks_def)

lemma bit_bits_to_byte:
  "j < 8 \<Longrightarrow> bit (bits_to_byte xs) j = (j < length xs \<and> xs ! j)"
  by (auto simp: bits_to_byte_def bit_horner_sum_bit_word_iff)

lemma bit_bits_to_bytes:
  assumes "i < length bs"
  shows "bit (bits_to_bytes bs ! (i div 8)) (i mod 8) = bs ! i"
proof -
  have lt: "i div 8 < (length bs + 7) div 8" using assms by auto
  have m: "i mod 8 < 8" by simp
  have idx: "8 * (i div 8) + i mod 8 = i" by simp
  have "bits_to_bytes bs ! (i div 8) = bits_to_byte (take 8 (drop (8 * (i div 8)) bs))"
    using lt by (simp add: bits_to_bytes_def)
  moreover have "i mod 8 < length (take 8 (drop (8 * (i div 8)) bs))"
    using assms by (simp add: less_diff_conv)
  moreover have "take 8 (drop (8 * (i div 8)) bs) ! (i mod 8) = bs ! i"
    using assms by (simp add: idx)
  ultimately show ?thesis using bit_bits_to_byte [OF m] by simp
qed

lemma bytes_to_bits_bits_to_bytes:
  "bytes_to_bits (bits_to_bytes bs) = bs @ replicate (8 * ((length bs + 7) div 8) - length bs) False"
proof (rule nth_equalityI)
  show "length (bytes_to_bits (bits_to_bytes bs)) =
    length (bs @ replicate (8 * ((length bs + 7) div 8) - length bs) False)"
    by (simp add: bytes_to_bits_def)
next
  fix i assume "i < length (bytes_to_bits (bits_to_bytes bs))"
  then have i: "i < 8 * ((length bs + 7) div 8)" by (simp add: bytes_to_bits_def)
  then have lt: "i div 8 < (length bs + 7) div 8" by auto
  show "bytes_to_bits (bits_to_bytes bs) ! i =
    (bs @ replicate (8 * ((length bs + 7) div 8) - length bs) False) ! i"
  proof (cases "i < length bs")
    case True
    then show ?thesis using i bit_bits_to_bytes [OF True]
      by (simp add: bytes_to_bits_def nth_append)
  next
    case False
    have m: "i mod 8 < 8" by simp
    have idx: "8 * (i div 8) + i mod 8 = i" by simp
    have "bits_to_bytes bs ! (i div 8) = bits_to_byte (take 8 (drop (8 * (i div 8)) bs))"
      using lt by (simp add: bits_to_bytes_def)
    moreover have "\<not> (i mod 8 < length (take 8 (drop (8 * (i div 8)) bs)))"
      using False by (simp add: less_diff_conv)
    ultimately have "\<not> bit (bits_to_bytes bs ! (i div 8)) (i mod 8)"
      using bit_bits_to_byte [OF m] by simp
    then show ?thesis using i False
      by (simp add: bytes_to_bits_def nth_append)
  qed
qed

lemma bv_deserialize_serialize:
  "bv_deserialize (length bs) (bv_serialize bs @ rest) (bv_type_byte_length (length bs)) = Inr bs"
  by (simp add: bv_deserialize_def bv_serialize_def bv_type_byte_length_def Let_def
      bytes_to_bits_bits_to_bytes list_ex_iff)

lemma div_256: "(i::nat) div 256 = i div 8 div 32"
  by (simp add: div_mult2_eq)

lemma mod_256: "(i::nat) mod 256 = 8 * (i div 8 mod 32) + i mod 8"
  using mod_mult2_eq [of i 8 32] by simp

lemma bv_chunk_count_bytes:
  "(((k::nat) + 7) div 8 + 31) div 32 = (k + 255) div 256"
proof -
  have "(k + 255) div 8 = (k + 7) div 8 + 31" by presburger
  then show ?thesis by (simp add: div_256)
qed

lemma chunk_bit_bytes_to_chunks:
  assumes "i div 8 < length bytes"
  shows "chunk_bit (bytes_to_chunks bytes ! (i div 256)) (i mod 256)
     = Inr (bit (bytes ! (i div 8)) (i mod 8))"
proof -
  define j where "j = i div 8"
  have jl: "j < length bytes" using assms by (simp add: j_def)
  have c: "j div 32 < (length bytes + 31) div 32"
    using jl by (simp add: div_le_mono less_Suc_eq_le less_eq_div_iff_mult_less_eq)
  have idx: "32 * (j div 32) + j mod 32 = j" by simp
  have d8: "i mod 256 div 8 = j mod 32" by (simp add: mod_256 j_def)
  have m8: "i mod 256 mod 8 = i mod 8" by (simp add: mod_256)
  have inr: "j mod 32 < length (take 32 (drop (32 * (j div 32)) bytes))"
    using jl by (simp add: less_diff_conv)
  have "bytes_to_chunks bytes ! (j div 32)
      = RootNode (pad_chunk (take 32 (drop (32 * (j div 32)) bytes)))"
    using c by (simp add: bytes_to_chunks_def)
  moreover have "pad_chunk (take 32 (drop (32 * (j div 32)) bytes)) ! (j mod 32) = bytes ! j"
    using inr jl by (simp add: pad_chunk_def nth_append idx)
  moreover have "j mod 32 < length (pad_chunk (take 32 (drop (32 * (j div 32)) bytes)))"
    by (simp add: pad_chunk_def)
  ultimately show ?thesis
    by (simp add: chunk_bit_def d8 m8 div_256 j_def [symmetric])
qed

lemma bv_read_bits_backing:
  assumes fill: "subtree_fill_to_contents (bytes_to_chunks (bits_to_bytes bs))
                   (get_depth (bv_chunk_count (length bs))) = Inr n"
    and idxs: "\<forall>i \<in> set idxs. i < length bs"
  shows "bv_read_bits (length bs) n idxs = Inr (map (\<lambda>i. bs ! i) idxs)"
  using idxs
proof (induction idxs)
  case Nil
  then show ?case by simp
next
  case (Cons i idxs)
  then have i: "i < length bs" by simp
  let ?d = "get_depth (bv_chunk_count (length bs))"
  let ?chunks = "bytes_to_chunks (bits_to_bytes bs)"
  have cc: "length ?chunks = bv_chunk_count (length bs)"
    by (simp add: bv_chunk_count_def bv_chunk_count_bytes)
  have c: "i div 256 < bv_chunk_count (length bs)"
    using i by (simp add: bv_chunk_count_def)
  then have c2: "i div 256 < 2 ^ ?d"
    using get_depth_upper [of "bv_chunk_count (length bs)"] by simp
  have g: "getter n (2 ^ ?d + i div 256) = Inr (?chunks ! (i div 256))"
    using getter_fill [OF fill c2] c cc by simp
  have b8: "i div 8 < length (bits_to_bytes bs)" using i by simp
  have "chunk_bit (?chunks ! (i div 256)) (i mod 256) = Inr (bs ! i)"
    using chunk_bit_bytes_to_chunks [OF b8] bit_bits_to_bytes [OF i] by simp
  with g Cons show ?case by simp
qed

lemma bv_get_backing_ok: "\<exists>n. bv_get_backing bs = Inr n"
proof -
  have "length (bytes_to_chunks (bits_to_bytes bs)) = bv_chunk_count (length bs)"
    by (simp add: bv_chunk_count_def bv_chunk_count_bytes)
  then have "length (bytes_to_chunks (bits_to_bytes bs))
      \<le> 2 ^ get_depth (bv_chunk_count (length bs))"
    using get_depth_upper [of "bv_chunk_count (length bs)"] by simp
  then show ?thesis unfolding bv_get_backing_def by (rule fill_ok)
qed

lemma bv_view_get_backing:
  "bv_get_backing bs = Inr n \<Longrightarrow> bv_view_from_backing (length bs) n = Inr bs"
  unfolding bv_get_backing_def bv_view_from_backing_def
  using bv_read_bits_backing [of bs n "[0..<length bs]"]
  by (simp add: map_nth)

lemma bv_read_bits_length:
  "bv_read_bits k n idxs = Inr bs \<Longrightarrow> length bs = length idxs"
  by (induction idxs arbitrary: bs) (auto split: sum.splits)

lemma bv_view_from_backing_length:
  "bv_view_from_backing k n = Inr bs \<Longrightarrow> length bs = k"
  unfolding bv_view_from_backing_def by (drule bv_read_bits_length) simp

section \<open>Assignment and construction of a StableContainer\<close>

lemma stable_set_backing_frame:
  assumes b: "backing = PairNode data right"
    and p: "perfect (get_depth (sc_N cls)) data"
    and af: "bv_view_from_backing (sc_N cls) right = Inr active_fields"
    and i: "findex < sc_N cls"
    and v: "value_node ftyp v = Inr fnode"
  shows "\<exists>data' right' active_fields'.
      stable_set_backing (StableSelf cls) backing findex ftyp (sc_N cls) v
        = Inr (PairNode data' right')
    \<and> perfect (get_depth (sc_N cls)) data'
    \<and> bv_view_from_backing (sc_N cls) right' = Inr active_fields'
    \<and> active_fields' = active_fields[findex := (v \<noteq> PyNone)]
    \<and> (\<forall>j < 2 ^ get_depth (sc_N cls).
          getter data' (2 ^ get_depth (sc_N cls) + j) =
            (if j = findex then Inr fnode else getter data (2 ^ get_depth (sc_N cls) + j)))"
proof -
  let ?D = "get_depth (sc_N cls)"
  let ?af' = "active_fields[findex := (v \<noteq> PyNone)]"
  have len: "length active_fields = sc_N cls"
    using af by (rule bv_view_from_backing_length)
  have s1: "stable_active_fields cls (PairNode data right) = Inr active_fields"
    by (simp add: stable_active_fields_def get_right_def af)
  have s2: "bv_set active_fields findex (v \<noteq> PyNone) = Inr ?af'"
    using i by (simp add: bv_set_def len)
  obtain right' where r': "bv_get_backing ?af' = Inr right'"
    using bv_get_backing_ok by blast
  have v': "bv_view_from_backing (sc_N cls) right' = Inr ?af'"
    using bv_view_get_backing [OF r'] by (simp add: len)
  have i2: "findex < 2 ^ ?D" using i get_depth_upper [of "sc_N cls"] by simp
  from setter_perfect [OF p i2, of fnode] obtain data' where
    d': "setter data (2 ^ ?D + findex) fnode = Inr data'" "perfect ?D data'"
    "\<forall>j < 2 ^ ?D. getter data' (2 ^ ?D + j) =
        (if j = findex then Inr fnode else getter data (2 ^ ?D + j))"
    by blast
  have "stable_set_backing (StableSelf cls) backing findex ftyp (sc_N cls) v
        = Inr (PairNode data' right')"
    by (simp add: stable_set_backing_def s1 s2 r' v d'(1) b rebind_right_def rebind_left_def
        get_left_def)
  with d'(2,3) v' show ?thesis by blast
qed

lemma stable_new_loop_step:
  "stable_new_loop ((fkey, findex, ftyp) # rest) kwargs input_nodes active_fields =
     (case value_node ftyp (kw_lookup kwargs fkey) of
        Inl e \<Rightarrow> Inl e
      | Inr fnode \<Rightarrow>
         (case bv_set active_fields findex (kw_lookup kwargs fkey \<noteq> PyNone) of
            Inl e \<Rightarrow> Inl e
          | Inr active_fields' \<Rightarrow>
             stable_new_loop rest (dict_pop kwargs fkey) (input_nodes @ [fnode]) active_fields'))"
  by (simp add: kw_lookup_def value_node_def Let_def split: option.splits pyval.splits sum.splits)

lemma map_of_dict_pop: "k' \<noteq> k \<Longrightarrow> map_of (dict_pop d k) k' = map_of d k'"
  by (induction d) (auto simp: dict_pop_def)

lemma kw_lookup_dict_pop: "k' \<noteq> k \<Longrightarrow> kw_lookup (dict_pop d k) k' = kw_lookup d k'"
  by (simp add: kw_lookup_def map_of_dict_pop)

lemma new_bits_length [simp]: "length (new_bits kwargs fs af) = length af"
  unfolding new_bits_def by (induction fs arbitrary: af) auto

lemma new_bits_cong:
  "\<forall>(k, i, t) \<in> set fs. kw_lookup kw1 k = kw_lookup kw2 k \<Longrightarrow>
   new_bits kw1 fs af = new_bits kw2 fs af"
  unfolding new_bits_def by (induction fs arbitrary: af) auto

lemma stable_new_loop_result:
  "distinct (map fst fs) \<Longrightarrow>
   stable_new_loop fs kwargs nodes af = Inr (kwargs', nodes', af') \<Longrightarrow>
   kwargs' = filter (\<lambda>(k, v). k \<notin> fst ` set fs) kwargs
   \<and> (\<exists>xs. nodes' = nodes @ xs
         \<and> map Inr xs = map (\<lambda>(k, i, t). value_node t (kw_lookup kwargs k)) fs)
   \<and> af' = new_bits kwargs fs af
   \<and> (\<forall>(k, i, t) \<in> set fs. i < length af)"
proof (induction fs arbitrary: kwargs nodes af)
  case Nil
  then show ?case by (simp add: new_bits_def)
next
  case (Cons f fs)
  obtain k i t where f: "f = (k, i, t)" by (cases f)
  from Cons.prems(1) have d: "distinct (map fst fs)" and nk: "k \<notin> fst ` set fs"
    by (auto simp: f)
  from Cons.prems(2) obtain x af1 where
    x: "value_node t (kw_lookup kwargs k) = Inr x" and
    a: "bv_set af i (kw_lookup kwargs k \<noteq> PyNone) = Inr af1" and
    r: "stable_new_loop fs (dict_pop kwargs k) (nodes @ [x]) af1 = Inr (kwargs', nodes', af')"
    unfolding f stable_new_loop_step by (auto split: sum.splits)
  from a have il: "i < length af" and af1: "af1 = af[i := (kw_lookup kwargs k \<noteq> PyNone)]"
    by (auto simp: bv_set_def split: if_splits)
  have same: "\<forall>(k', i', t') \<in> set fs. kw_lookup (dict_pop kwargs k) k' = kw_lookup kwargs k'"
  proof (clarify)
    fix k' i' t' assume "(k', i', t') \<in> set fs"
    then have "k' \<in> fst ` set fs" by force
    with nk have "k' \<noteq> k" by blast
    then show "kw_lookup (dict_pop kwargs k) k' = kw_lookup kwargs k'"
      by (rule kw_lookup_dict_pop)
  qed
  from Cons.IH [OF d r] obtain xs where
    h1: "kwargs' = filter (\<lambda>(k', v). k' \<notin> fst ` set fs) (dict_pop kwargs k)" and
    h2: "nodes' = (nodes @ [x]) @ xs" and
    h3: "map Inr xs = map (\<lambda>(k', i', t'). value_node t' (kw_lookup (dict_pop kwargs k) k')) fs" and
    h4: "af' = new_bits (dict_pop kwargs k) fs af1" and
    h5: "\<forall>(k', i', t') \<in> set fs. i' < length af1"
    by blast
  have q1: "kwargs' = filter (\<lambda>(k', v). k' \<notin> fst ` set (f # fs)) kwargs"
    unfolding h1 dict_pop_def f by (induction kwargs) auto
  have q3: "map Inr (x # xs) =
      map (\<lambda>(k', i', t'). value_node t' (kw_lookup kwargs k')) (f # fs)"
    using h3 same x by (auto simp: f)
  have q4: "af' = new_bits kwargs (f # fs) af"
    using h4 new_bits_cong [OF same, of af1] by (simp add: new_bits_def f af1)
  have q5: "\<forall>(k', i', t') \<in> set (f # fs). i' < length af"
    using h5 il by (auto simp: f af1)
  from q1 h2 q3 q4 q5 show ?case by (intro conjI exI [of _ "x # xs"]) simp_all
qed

lemma new_bits_nth:
  "map (\<lambda>(k, i, t). i) fs = [m..<m + length fs] \<Longrightarrow> m + length fs \<le> length af \<Longrightarrow>
   j < length af \<Longrightarrow>
   new_bits kwargs fs af ! j =
     (if m \<le> j \<and> j < m + length fs then kw_lookup kwargs (fst (fs ! (j - m))) \<noteq> PyNone
      else af ! j)"
proof (induction fs arbitrary: m af)
  case Nil
  then show ?case by (auto simp: new_bits_def)
next
  case (Cons f fs)
  obtain k i t where f: "f = (k, i, t)" by (cases f)
  have u: "[m..<m + length (f # fs)] = m # [Suc m..<Suc m + length fs]"
    by (simp del: upt_Suc add: upt_conv_Cons)
  from Cons.prems(1) have i: "i = m" and rest: "map (\<lambda>(k, i, t). i) fs = [Suc m..<Suc m + length fs]"
    unfolding u by (simp_all add: f)
  have step: "new_bits kwargs ((k, i, t) # fs) af
      = new_bits kwargs fs (af[m := (kw_lookup kwargs k \<noteq> PyNone)])"
    by (simp add: new_bits_def i)
  have "new_bits kwargs fs (af[m := (kw_lookup kwargs k \<noteq> PyNone)]) ! j =
     (if Suc m \<le> j \<and> j < Suc m + length fs
      then kw_lookup kwargs (fst (fs ! (j - Suc m))) \<noteq> PyNone
      else (af[m := (kw_lookup kwargs k \<noteq> PyNone)]) ! j)"
    using Cons.IH [OF rest, of "af[m := (kw_lookup kwargs k \<noteq> PyNone)]"] Cons.prems(2,3)
    by simp
  then show ?case
    using Cons.prems(2,3)
    by (cases "j = m") (auto simp: f step Suc_diff_le nth_Cons')
qed

lemma wf_stable_cls_findex:
  assumes "wf_stable_cls cls" and "map_of (sc_field_indices cls) key = Some (findex, ftyp)"
  shows "findex < sc_N cls"
proof -
  from assms(2) have "(key, findex, ftyp) \<in> set (sc_field_indices cls)" by (rule map_of_SomeD)
  then have "findex \<in> set (map (\<lambda>(fkey, findex, ftyp). findex) (sc_field_indices cls))"
    by force
  moreover have "map (\<lambda>(fkey, findex, ftyp). findex) (sc_field_indices cls)
      = [0..<length (sc_field_indices cls)]"
    using assms(1) by (simp add: wf_stable_cls_def)
  ultimately have "findex \<in> set [0..<length (sc_field_indices cls)]" by simp
  then have "findex < length (sc_field_indices cls)" by simp
  then show ?thesis using assms(1) by (simp add: wf_stable_cls_def)
qed

lemma stable_new_coherent:
  assumes wf: "wf_stable_cls cls" and new: "stable_new cls None kwargs = Inr backing"
  shows "presence_coherent cls backing"
proof -
  let ?D = "get_depth (sc_N cls)"
  let ?fs = "sc_field_indices cls"
  from new obtain kwargs' nodes af left right where
    loop: "stable_new_loop ?fs kwargs [] (bv_default (sc_N cls)) = Inr (kwargs', nodes, af)" and
    fill: "subtree_fill_to_contents nodes ?D = Inr left" and
    bvb: "bv_get_backing af = Inr right" and
    b: "backing = PairNode left right"
    by (auto simp: stable_new_def split: sum.splits if_splits)
  from wf have dist: "distinct (map fst ?fs)"
    and idx: "map (\<lambda>(fkey, findex, ftyp). findex) ?fs = [0..<0 + length ?fs]"
    and le: "length ?fs \<le> sc_N cls"
    by (simp_all add: wf_stable_cls_def)
  from stable_new_loop_result [OF dist loop] have
    nodes: "map Inr nodes = map (\<lambda>(k, i, t). value_node t (kw_lookup kwargs k)) ?fs" and
    af: "af = new_bits kwargs ?fs (bv_default (sc_N cls))"
    by auto
  have len_af: "length af = sc_N cls" by (simp add: af bv_default_def)
  have len_nodes: "length nodes = length ?fs"
    using arg_cong [OF nodes, of length] by simp
  have view: "bv_view_from_backing (sc_N cls) right = Inr af"
    using bv_view_get_backing [OF bvb] by (simp add: len_af)
  have zero: "getter left (2 ^ ?D + i) = Inr (zero_node 0)"
    if i: "i < sc_N cls" and off: "\<not> af ! i" for i
  proof -
    have i2: "i < 2 ^ ?D" using i get_depth_upper [of "sc_N cls"] by simp
    have g: "getter left (2 ^ ?D + i) = Inr (if i < length nodes then nodes ! i else zero_node 0)"
      using getter_fill [OF fill i2] .
    show ?thesis
    proof (cases "i < length ?fs")
      case True
      obtain k j t where f: "?fs ! i = (k, j, t)" by (cases "?fs ! i")
      have "new_bits kwargs ?fs (bv_default (sc_N cls)) ! i
          = (kw_lookup kwargs (fst (?fs ! i)) \<noteq> PyNone)"
        using new_bits_nth [OF idx, of "bv_default (sc_N cls)" i kwargs] le i True
        by (simp add: bv_default_def)
      with off have none: "kw_lookup kwargs k = PyNone" by (simp add: af f)
      have "map Inr nodes ! i = value_node t (kw_lookup kwargs k)"
        using True by (simp add: nodes f)
      then have "nodes ! i = zero_node 0"
        using True by (simp add: len_nodes none value_node_def)
      with g True show ?thesis by (simp add: len_nodes)
    next
      case False
      with g show ?thesis by (simp add: len_nodes)
    qed
  qed
  show ?thesis
    unfolding presence_coherent_def
    using b fill_perfect [OF fill] view zero by blast
qed

lemma stable_set_backing_value:
  "value_node ftyp v = Inl e \<Longrightarrow>
   \<exists>e'. stable_set_backing self backing findex ftyp n v = Inl e'"
  by (auto simp: stable_set_backing_def split: sum.splits)

lemma stable_setattr_coherent:
  assumes wf: "wf_stable_cls cls" and coh: "presence_coherent cls backing"
    and key: "key = [] \<or> hd key \<noteq> CHR ''_''"
    and set: "stable_setattr super_setattr cls backing key v = (outcome, backing')"
  shows "presence_coherent cls backing'"
proof (cases "key = []")
  case True
  with set coh show ?thesis by (simp add: stable_setattr_def)
next
  case False
  then obtain c cs where k: "key = c # cs" by (cases key) auto
  with key have c: "c \<noteq> CHR ''_''" by simp
  show ?thesis
  proof (cases "map_of (sc_field_indices cls) key")
    case None
    with set coh k c show ?thesis by (simp add: stable_setattr_def)
  next
    case (Some p)
    obtain findex ftyp where p: "p = (findex, ftyp)" by (cases p)
    have i: "findex < sc_N cls" using wf_stable_cls_findex [OF wf] Some p by simp
    have s: "stable_set (StableSelf cls) backing findex ftyp (sc_N cls) v = (outcome, backing')"
      using set Some p k c by (simp add: stable_setattr_def)
    let ?D = "get_depth (sc_N cls)"
    from coh obtain data right af where
      b: "backing = PairNode data right" and pf: "perfect ?D data" and
      view: "bv_view_from_backing (sc_N cls) right = Inr af" and
      z: "\<forall>i < sc_N cls. \<not> af ! i \<longrightarrow> getter data (2 ^ ?D + i) = Inr (zero_node 0)"
      unfolding presence_coherent_def by blast
    have len: "length af = sc_N cls" using view by (rule bv_view_from_backing_length)
    show ?thesis
    proof (cases "value_node ftyp v")
      case (Inl e)
      from stable_set_backing_value [OF Inl] obtain e' where
        "stable_set_backing (StableSelf cls) backing findex ftyp (sc_N cls) v = Inl e'"
        by blast
      with s have "backing' = backing" by (simp add: stable_set_def)
      with coh show ?thesis by simp
    next
      case (Inr fnode)
      from stable_set_backing_frame [OF b pf view i Inr] obtain data' right' af' where
        r: "stable_set_backing (StableSelf cls) backing findex ftyp (sc_N cls) v
              = Inr (PairNode data' right')" and
        pf': "perfect ?D data'" and
        view': "bv_view_from_backing (sc_N cls) right' = Inr af'" and
        af': "af' = af[findex := (v \<noteq> PyNone)]" and
        g: "\<forall>j < 2 ^ ?D. getter data' (2 ^ ?D + j) =
              (if j = findex then Inr fnode else getter data (2 ^ ?D + j))"
        by blast
      from s r have b': "backing' = PairNode data' right'" by (simp add: stable_set_def)
      have "getter data' (2 ^ ?D + j) = Inr (zero_node 0)"
        if j: "j < sc_N cls" and off: "\<not> af' ! j" for j
      proof -
        have j2: "j < 2 ^ ?D" using j get_depth_upper [of "sc_N cls"] by simp
        show ?thesis
        proof (cases "j = findex")
          case True
          with off i have "v = PyNone" by (simp add: af' len)
          with Inr have "fnode = zero_node 0" by (simp add: value_node_def)
          with g j2 True show ?thesis by simp
        next
          case False
          with off have "\<not> af ! j" by (simp add: af')
          with z j have "getter data (2 ^ ?D + j) = Inr (zero_node 0)" by blast
          with g j2 False show ?thesis by simp
        qed
      qed
      then show ?thesis
        unfolding presence_coherent_def using b' pf' view' by blast
    qed
  qed
qed

lemma stable_setattr_seq_coherent:
  "wf_stable_cls cls \<Longrightarrow> presence_coherent cls backing \<Longrightarrow>
   list_all (\<lambda>(key, v). key = [] \<or> hd key \<noteq> CHR ''_'') assignments \<Longrightarrow>
   stable_setattr_seq super_setattr cls backing assignments = (outcome, backing') \<Longrightarrow>
   presence_coherent cls backing'"
proof (induction assignments arbitrary: backing)
  case Nil
  then show ?case by simp
next
  case (Cons a assignments)
  obtain key v where a: "a = (key, v)" by (cases a)
  obtain out1 b1 where s1: "stable_setattr super_setattr cls backing key v = (out1, b1)"
    by (cases "stable_setattr super_setattr cls backing key v")
  from Cons.prems(3) have key: "key = [] \<or> hd key \<noteq> CHR ''_''"
    and rest: "list_all (\<lambda>(key, v). key = [] \<or> hd key \<noteq> CHR ''_'') assignments"
    by (simp_all add: a)
  have c1: "presence_coherent cls b1"
    using stable_setattr_coherent [OF Cons.prems(1,2) key s1] .
  show ?case
  proof (cases out1)
    case (Inl e)
    with Cons.prems(4) s1 have "backing' = b1" by (simp add: a)
    with c1 show ?thesis by simp
  next
    case (Inr u)
    with Cons.prems(4) s1 have
      "stable_setattr_seq super_setattr cls b1 assignments = (outcome, backing')"
      by (simp add: a)
    from Cons.IH [OF Cons.prems(1) c1 rest this] show ?thesis .
  qed
qed
section \<open>Generalized indices of fields\<close>

text \<open>
  Claim C7. \<^verbatim>\<open>key_to_static_gindex\<close> maps the field declared at position \<open>i\<close> of a
  \<^verbatim>\<open>StableContainer[N]\<close> to the generalized index \<open>2 ^ (D + 1) + i\<close> with
  \<open>D = ceil(log2(N))\<close>, the key \<^verbatim>\<open>__active_fields__\<close> to 3, and the field with index
  \<open>j\<close> of a Profile over a plain Container to \<open>2 ^ D + j\<close> with \<open>D\<close> the ceiling of the
  binary logarithm of the field count of the base. The index of a StableContainer field is
  a function of the capacity and the position alone, not of the number of declared fields.
\<close>

theorem key_to_static_gindex_capacity:
  assumes "stable_init_subclass n annotations = Inr cls"
    and "distinct (map fst annotations)"
    and "i < length annotations"
    and "fst (annotations ! i) \<noteq> ''__active_fields__''"
    and "pf_B p = ContainerBase c"
    and "map_of (pf_field_indices p) key = Some (j, t, fopt)"
    and "key \<noteq> ''__active_fields__''"
    and "0 < length (ct_fields c)"
  shows "stable_key_to_static_gindex cls (fst (annotations ! i))
           = Inr (2 ^ (nat \<lceil>log 2 (real_of_int n)\<rceil> + 1) + i)
       \<and> stable_key_to_static_gindex cls ''__active_fields__'' = Inr 3
       \<and> profile_key_to_static_gindex p key
           = Inr (2 ^ nat \<lceil>log 2 (real (length (ct_fields c)))\<rceil> + j)"
proof -
  from assms(1) have n: "0 < n" and
    cls: "cls = \<lparr>sc_N = nat n, sc_field_indices =
            map (\<lambda>(findex, (fkey, t)). (fkey, findex, t)) (enumerate 0 annotations)\<rparr>"
    by (auto simp: stable_init_subclass_def split: if_splits)
  have "real_of_int n = real (nat n)" using n by simp
  then have D: "get_depth (nat n) = nat \<lceil>log 2 (real_of_int n)\<rceil>"
    using get_depth_nat_ceiling_log2 [of "nat n"] n by simp
  have "stable_key_to_static_gindex cls (fst (annotations ! i))
           = Inr (2 ^ get_depth (nat n) * 2 + i)"
    using map_of_enumerate_fields [OF assms(2,3), of 0] assms(4)
    by (simp add: stable_key_to_static_gindex_def cls)
  then have 1: "stable_key_to_static_gindex cls (fst (annotations ! i))
           = Inr (2 ^ (nat \<lceil>log 2 (real_of_int n)\<rceil> + 1) + i)"
    by (simp add: D)
  have 2: "stable_key_to_static_gindex cls ''__active_fields__'' = Inr 3"
    by (simp add: stable_key_to_static_gindex_def RIGHT_GINDEX_def)
  have 3: "profile_key_to_static_gindex p key
           = Inr (2 ^ nat \<lceil>log 2 (real (length (ct_fields c)))\<rceil> + j)"
    using assms(5,6,7) get_depth_nat_ceiling_log2 [OF assms(8)]
    by (simp add: profile_key_to_static_gindex_def)
  from 1 2 3 show ?thesis by blast
qed

theorem key_to_static_gindex_capacity_witness:
  "stable_init_subclass 4 ex_annotations = Inr ex_stable
   \<and> distinct (map fst ex_annotations)
   \<and> 1 < length ex_annotations
   \<and> fst (ex_annotations ! 1) \<noteq> ''__active_fields__''
   \<and> pf_B ex_container_profile = ContainerBase ex_container
   \<and> map_of (pf_field_indices ex_container_profile) ''z'' = Some (2, uint_type 1, False)
   \<and> ''z'' \<noteq> ''__active_fields__''
   \<and> 0 < length (ct_fields ex_container)
   \<and> stable_key_to_static_gindex ex_stable (fst (ex_annotations ! 1))
           = Inr (2 ^ (nat \<lceil>log 2 (real_of_int 4)\<rceil> + 1) + 1)
   \<and> stable_key_to_static_gindex ex_stable ''__active_fields__'' = Inr 3
   \<and> profile_key_to_static_gindex ex_container_profile ''z''
           = Inr (2 ^ nat \<lceil>log 2 (real (length (ct_fields ex_container)))\<rceil> + 2)"
proof -
  have h1: "stable_init_subclass 4 ex_annotations = Inr ex_stable"
    by (simp add: stable_init_subclass_def ex_annotations_def ex_stable_def enumerate_eq_zip
        upt_conv_Cons)
  have h2: "distinct (map fst ex_annotations)" by (simp add: ex_annotations_def)
  have h3: "1 < length ex_annotations" by (simp add: ex_annotations_def)
  have h4: "fst (ex_annotations ! 1) \<noteq> ''__active_fields__''"
    by (simp add: ex_annotations_def)
  have h5: "pf_B ex_container_profile = ContainerBase ex_container"
    by (simp add: ex_container_profile_def)
  have h6: "map_of (pf_field_indices ex_container_profile) ''z'' = Some (2, uint_type 1, False)"
    by (simp add: ex_container_profile_def)
  have h7: "''z'' \<noteq> ''__active_fields__''" by simp
  have h8: "0 < length (ct_fields ex_container)" by (simp add: ex_container_def)
  from key_to_static_gindex_capacity [OF h1 h2 h3 h4 h5 h6 h7 h8] h1 h2 h3 h4 h5 h6 h7 h8
  show ?thesis by blast
qed

section \<open>Field access on a Profile\<close>

text \<open>
  Claim C10. On a Profile over a StableContainer, reading a required (non-optional) field
  whose active bit is 0 does not return \<^verbatim>\<open>None\<close>: the assertion of the accessor fails
  and \<^verbatim>\<open>AssertionError\<close> is raised.
\<close>

theorem profile_getattr_required_absent:
  assumes "pf_B cls = StableBase b"
    and "map_of (pf_field_indices cls) item = Some (findex, ftyp, False)"
    and "item \<noteq> []" and "hd item \<noteq> CHR ''_''"
    and "profile_active_fields cls backing = Inr active_fields"
    and "bv_get active_fields findex = Inr False"
  shows "profile_getattr super_getattribute cls backing item = Inl (Err AssertionError [])"
  using assms
  by (cases item) (simp_all add: profile_getattr_def stable_get_def)

theorem profile_getattr_required_absent_witness:
  "pf_B ex_profile = StableBase ex_stable
   \<and> map_of (pf_field_indices ex_profile) ''a'' = Some (0, uint_type 2, False)
   \<and> ''a'' \<noteq> [] \<and> hd ''a'' \<noteq> CHR ''_''
   \<and> profile_active_fields ex_profile ex_backing_b = Inr [False, True, False, False]
   \<and> bv_get [False, True, False, False] 0 = Inr False
   \<and> profile_getattr (\<lambda>item backing. Inl (Err AttributeError item)) ex_profile ex_backing_b ''a''
       = Inl (Err AssertionError [])"
proof -
  have h1: "pf_B ex_profile = StableBase ex_stable" by (simp add: ex_profile_def)
  have h2: "map_of (pf_field_indices ex_profile) ''a'' = Some (0, uint_type 2, False)"
    by (simp add: ex_profile_def)
  have h3: "''a'' \<noteq> []" by simp
  have h4: "hd ''a'' \<noteq> CHR ''_''" by simp
  have h5: "profile_active_fields ex_profile ex_backing_b = Inr [False, True, False, False]"
    by code_simp
  have h6: "bv_get [False, True, False, False] 0 = Inr False" by (simp add: bv_get_def)
  from profile_getattr_required_absent [OF h1 h2 h3 h4 h5 h6] h1 h2 h3 h4 h5 h6
  show ?thesis by blast
qed

text \<open>
  Claim C6. Assigning \<^verbatim>\<open>None\<close> to a required field of a Profile raises
  \<^verbatim>\<open>ValueError\<close>, and the backing of the value after the failed assignment is the
  backing before it.
\<close>

theorem profile_setattr_required_none:
  assumes "map_of (pf_field_indices cls) key = Some (findex, ftyp, False)"
    and "key \<noteq> []" and "hd key \<noteq> CHR ''_''"
  shows "profile_setattr super_setattr cls backing key PyNone
           = (Inl (Err ValueError ''Field is required and cannot be set to None''), backing)"
  using assms
  by (cases key) (simp_all add: profile_setattr_def)

theorem profile_setattr_required_none_witness:
  "map_of (pf_field_indices ex_profile) ''a'' = Some (0, uint_type 2, False)
   \<and> ''a'' \<noteq> [] \<and> hd ''a'' \<noteq> CHR ''_''
   \<and> profile_setattr (\<lambda>key v backing. (Inl (Err AttributeError key), backing))
        ex_profile ex_backing_ab ''a'' PyNone
       = (Inl (Err ValueError ''Field is required and cannot be set to None''), ex_backing_ab)"
proof -
  have h1: "map_of (pf_field_indices ex_profile) ''a'' = Some (0, uint_type 2, False)"
    by (simp add: ex_profile_def)
  have h2: "''a'' \<noteq> []" by simp
  have h3: "hd ''a'' \<noteq> CHR ''_''" by simp
  from profile_setattr_required_none [OF h1 h2 h3] h1 h2 h3
  show ?thesis by blast
qed

section \<open>Deserialization checks\<close>

text \<open>
  Claim C5. In \<^verbatim>\<open>StableContainer[N].deserialize\<close>, once the active-fields bitvector
  has been read: if a bit with index \<open>i\<close>, \<open>field_count \<le> i < N\<close>, is set, decoding fails
  with the unknown-field error; otherwise decoding goes on with reading the fields.
\<close>

theorem stable_deserialize_unknown_fields:
  assumes "bv_type_byte_length (sc_N cls) \<le> scope"
    and "bv_deserialize (sc_N cls) stream (bv_type_byte_length (sc_N cls)) = Inr active_fields"
  shows "stable_deserialize cls stream scope =
     (if \<exists>i. length (sc_field_indices cls) \<le> i \<and> i < sc_N cls \<and> active_fields ! i
      then Inl (Err Exception ''Unknown field index'')
      else (case stable_read_loop active_fields (sc_field_indices cls)
                   (drop (bv_type_byte_length (sc_N cls)) stream, [], [], 0) of
              Inl e \<Rightarrow> Inl e
            | Inr (stream', field_values, dyn_fields, fixed_size) \<Rightarrow>
               (case read_dyn_fields dyn_fields fixed_size
                       (scope - bv_type_byte_length (sc_N cls)) stream' field_values of
                  Inl e \<Rightarrow> Inl e
                | Inr field_values' \<Rightarrow> stable_new cls None field_values')))"
proof -
  have len: "length active_fields = sc_N cls"
    using assms(2) by (rule bv_deserialize_length)
  have chk: "check_unknown_fields active_fields [length (sc_field_indices cls)..<sc_N cls] =
     (if \<exists>i. length (sc_field_indices cls) \<le> i \<and> i < sc_N cls \<and> active_fields ! i
      then Inl (Err Exception ''Unknown field index'') else Inr ())"
    using check_unknown_fields_iff [of "[length (sc_field_indices cls)..<sc_N cls]" active_fields]
    by (auto simp: len)
  show ?thesis
  proof (cases "\<exists>i. length (sc_field_indices cls) \<le> i \<and> i < sc_N cls \<and> active_fields ! i")
    case True
    then show ?thesis
      using assms by (simp add: stable_deserialize_def Let_def chk)
  next
    case False
    then show ?thesis
      using assms by (auto simp add: stable_deserialize_def Let_def chk)
  qed
qed

theorem stable_deserialize_unknown_fields_witness:
  "bv_type_byte_length (sc_N ex_stable) \<le> 1
   \<and> bv_deserialize (sc_N ex_stable) [8] (bv_type_byte_length (sc_N ex_stable))
       = Inr [False, False, False, True]
   \<and> (\<exists>i. length (sc_field_indices ex_stable) \<le> i \<and> i < sc_N ex_stable
          \<and> [False, False, False, True] ! i)
   \<and> stable_deserialize ex_stable [8] 1 = Inl (Err Exception ''Unknown field index'')"
proof -
  have h1: "bv_type_byte_length (sc_N ex_stable) \<le> 1"
    by (simp add: bv_type_byte_length_def ex_stable_def)
  have h2: "bv_deserialize (sc_N ex_stable) [8] (bv_type_byte_length (sc_N ex_stable))
       = Inr [False, False, False, True]"
    by code_simp
  have h3: "\<exists>i. length (sc_field_indices ex_stable) \<le> i \<and> i < sc_N ex_stable
          \<and> [False, False, False, True] ! i"
    by (rule exI [of _ 3]) (simp add: ex_stable_def)
  from stable_deserialize_unknown_fields [OF h1 h2] h3
  have "stable_deserialize ex_stable [8] 1 = Inl (Err Exception ''Unknown field index'')"
    by (simp only: if_True)
  with h1 h2 h3 show ?thesis by blast
qed

text \<open>
  Claim C3, as stated: decoding fails unless the first recorded dynamic offset equals the
  size of the fixed section. The code rejects only a smaller first offset (lines 241 and
  552 test \<^verbatim>\<open>offset < fixed_size\<close>): on the input below the first loop records the
  offset 7 with a fixed size of 6, and decoding succeeds.
\<close>

theorem first_offset_equality_counterexample:
  "stable_read_loop [True, True, False, False] (sc_field_indices ex_stable)
      (drop 1 ex_input_gap, [], [], 0)
     = Inr ([255, 1, 2, 3], [(''a'', PyView (RootNode (pad_chunk [7, 0])))],
            [(''b'', byte_list_type 8, 7)], 6)
   \<and> (7::nat) \<noteq> 6
   \<and> stable_deserialize ex_stable ex_input_gap 11 = Inr ex_decoded_gap"
proof -
  have d: "decode_offset [7, 0, 0, 0, 255, 1, 2, 3] = 7" by code_simp
  have u: "is_fixed_byte_length (uint_type n)" "type_byte_length (uint_type n) = n"
    "type_deserialize (uint_type n) bs n = Inr (RootNode (pad_chunk bs))" for n bs
    by (simp_all add: uint_type_def)
  have b: "\<not> is_fixed_byte_length (byte_list_type n)" for n
    by (simp add: byte_list_type_def)
  have 1: "stable_read_loop [True, True, False, False] (sc_field_indices ex_stable)
      (drop 1 ex_input_gap, [], [], 0)
     = Inr ([255, 1, 2, 3], [(''a'', PyView (RootNode (pad_chunk [7, 0])))],
            [(''b'', byte_list_type 8, 7)], 6)"
    by (simp add: ex_stable_def ex_input_gap_def bv_get_def read_field_def u b d
        OFFSET_BYTE_LENGTH_def)
  have 2: "stable_deserialize ex_stable ex_input_gap 11 = Inr ex_decoded_gap"
    by code_simp
  from 1 2 show ?thesis by simp
qed

text \<open>
  Claim C3, amended: when a StableContainer or Profile input has an active dynamic field and
  the first recorded dynamic offset is smaller than the computed size of the fixed section,
  decoding fails with the first-offset error.
\<close>

theorem first_offset_below_fixed_size_rejected:
  "(bv_type_byte_length (sc_N cls) \<le> scope
    \<and> bv_deserialize (sc_N cls) stream (bv_type_byte_length (sc_N cls)) = Inr active_fields
    \<and> check_unknown_fields active_fields [length (sc_field_indices cls)..<sc_N cls] = Inr ()
    \<and> stable_read_loop active_fields (sc_field_indices cls)
         (drop (bv_type_byte_length (sc_N cls)) stream, [], [], 0)
        = Inr (stream', field_values, (fkey, ftyp, offset) # dyn_fields, fixed_size)
    \<and> offset < fixed_size
    \<longrightarrow> stable_deserialize cls stream scope
          = Inl (Err Exception ''First offset is smaller than expected fixed size''))
   \<and> (profile_read_prefix pcls pstream pscope = Inr (optional_fields, pstream', pscope')
    \<and> profile_read_loop optional_fields (pf_field_indices pcls) 0 (pstream', [], [], 0)
        = Inr (oindex, pstream'', pfield_values, (pfkey, pftyp, poffset) # pdyn_fields,
               pfixed_size)
    \<and> poffset < pfixed_size
    \<longrightarrow> profile_deserialize pcls pstream pscope
          = Inl (Err Exception ''First offset is smaller than expected fixed size''))"
proof (intro conjI impI)
  assume "bv_type_byte_length (sc_N cls) \<le> scope
    \<and> bv_deserialize (sc_N cls) stream (bv_type_byte_length (sc_N cls)) = Inr active_fields
    \<and> check_unknown_fields active_fields [length (sc_field_indices cls)..<sc_N cls] = Inr ()
    \<and> stable_read_loop active_fields (sc_field_indices cls)
         (drop (bv_type_byte_length (sc_N cls)) stream, [], [], 0)
        = Inr (stream', field_values, (fkey, ftyp, offset) # dyn_fields, fixed_size)
    \<and> offset < fixed_size"
  then show "stable_deserialize cls stream scope
          = Inl (Err Exception ''First offset is smaller than expected fixed size'')"
    by (simp add: stable_deserialize_def Let_def read_dyn_fields_def)
next
  assume a: "profile_read_prefix pcls pstream pscope = Inr (optional_fields, pstream', pscope')
    \<and> profile_read_loop optional_fields (pf_field_indices pcls) 0 (pstream', [], [], 0)
        = Inr (oindex, pstream'', pfield_values, (pfkey, pftyp, poffset) # pdyn_fields,
               pfixed_size)
    \<and> poffset < pfixed_size"
  then have loop: "profile_read_loop optional_fields (pf_field_indices pcls) 0
      (pstream', [], [], 0)
        = Inr (oindex, pstream'', pfield_values, (pfkey, pftyp, poffset) # pdyn_fields,
               pfixed_size)"
    by simp
  have "oindex = pf_o pcls"
    using profile_read_loop_oindex [OF loop] by (simp add: pf_o_def)
  with a show "profile_deserialize pcls pstream pscope
          = Inl (Err Exception ''First offset is smaller than expected fixed size'')"
    by (simp add: profile_deserialize_def read_dyn_fields_def)
qed

theorem first_offset_below_fixed_size_rejected_witness:
  "(bv_type_byte_length (sc_N ex_stable) \<le> 10
    \<and> bv_deserialize (sc_N ex_stable) ex_input_overlap (bv_type_byte_length (sc_N ex_stable))
        = Inr [True, True, False, False]
    \<and> check_unknown_fields [True, True, False, False]
         [length (sc_field_indices ex_stable)..<sc_N ex_stable] = Inr ()
    \<and> stable_read_loop [True, True, False, False] (sc_field_indices ex_stable)
         (drop (bv_type_byte_length (sc_N ex_stable)) ex_input_overlap, [], [], 0)
        = Inr ([1, 2, 3], [(''a'', PyView (RootNode (pad_chunk [7, 0])))],
               (''b'', byte_list_type 8, 5) # [], 6)
    \<and> (5::nat) < 6
    \<and> stable_deserialize ex_stable ex_input_overlap 10
          = Inl (Err Exception ''First offset is smaller than expected fixed size''))
   \<and> (profile_read_prefix ex_profile ex_profile_input_overlap 10
        = Inr ([True], [7, 0, 5, 0, 0, 0, 1, 2, 3], 9)
    \<and> profile_read_loop [True] (pf_field_indices ex_profile) 0
         ([7, 0, 5, 0, 0, 0, 1, 2, 3], [], [], 0)
        = Inr (1, [1, 2, 3], [(''a'', PyView (RootNode (pad_chunk [7, 0])))],
               (''b'', byte_list_type 8, 5) # [], 6)
    \<and> (5::nat) < 6
    \<and> profile_deserialize ex_profile ex_profile_input_overlap 10
          = Inl (Err Exception ''First offset is smaller than expected fixed size''))"
proof -
  have d: "decode_offset [5, 0, 0, 0, 1, 2, 3] = 5" by code_simp
  have u: "is_fixed_byte_length (uint_type n)" "type_byte_length (uint_type n) = n"
    "type_deserialize (uint_type n) bs n = Inr (RootNode (pad_chunk bs))" for n bs
    by (simp_all add: uint_type_def)
  have b: "\<not> is_fixed_byte_length (byte_list_type n)" for n
    by (simp add: byte_list_type_def)
  have s1: "bv_type_byte_length (sc_N ex_stable) \<le> 10"
    by (simp add: bv_type_byte_length_def ex_stable_def)
  have s2: "bv_deserialize (sc_N ex_stable) ex_input_overlap
              (bv_type_byte_length (sc_N ex_stable)) = Inr [True, True, False, False]"
    by code_simp
  have s3: "check_unknown_fields [True, True, False, False]
         [length (sc_field_indices ex_stable)..<sc_N ex_stable] = Inr ()"
    by code_simp
  have s4: "stable_read_loop [True, True, False, False] (sc_field_indices ex_stable)
         (drop (bv_type_byte_length (sc_N ex_stable)) ex_input_overlap, [], [], 0)
        = Inr ([1, 2, 3], [(''a'', PyView (RootNode (pad_chunk [7, 0])))],
               (''b'', byte_list_type 8, 5) # [], 6)"
    by (simp add: ex_stable_def ex_input_overlap_def bv_get_def read_field_def u b d
        OFFSET_BYTE_LENGTH_def bv_type_byte_length_def)
  have s5: "(5::nat) < 6" by simp
  have p1: "profile_read_prefix ex_profile ex_profile_input_overlap 10
        = Inr ([True], [7, 0, 5, 0, 0, 0, 1, 2, 3], 9)"
    by code_simp
  have p2: "profile_read_loop [True] (pf_field_indices ex_profile) 0
         ([7, 0, 5, 0, 0, 0, 1, 2, 3], [], [], 0)
        = Inr (1, [1, 2, 3], [(''a'', PyView (RootNode (pad_chunk [7, 0])))],
               (''b'', byte_list_type 8, 5) # [], 6)"
    by (simp add: ex_profile_def bv_get_def read_field_def u b d OFFSET_BYTE_LENGTH_def)
  note t = first_offset_below_fixed_size_rejected
    [of ex_stable 10 ex_input_overlap "[True, True, False, False]" "[1, 2, 3]"
        "[(''a'', PyView (RootNode (pad_chunk [7, 0])))]" "''b''" "byte_list_type 8" 5 "[]" 6
        ex_profile ex_profile_input_overlap 10 "[True]" "[7, 0, 5, 0, 0, 0, 1, 2, 3]" 9
        1 "[1, 2, 3]" "[(''a'', PyView (RootNode (pad_chunk [7, 0])))]" "''b''"
        "byte_list_type 8" 5 "[]" 6]
  from t s1 s2 s3 s4 s5 p1 p2 show ?thesis by blast
qed

section \<open>The side buffer of Profile.serialize\<close>

text \<open>
  Claim C9. When \<^verbatim>\<open>Profile.serialize\<close> reaches its last write, \<^verbatim>\<open>num_data_bytes\<close> is
  at least the number of bytes in the side buffer, so \<^verbatim>\<open>temp_dyn_stream.read(num_data_bytes)\<close>
  returns the whole buffer and the output is the prefix, the fixed section and the entire
  side buffer.
\<close>

theorem profile_serialize_writes_side_buffer:
  assumes "profile_serialize_parts cls backing =
     Inr (prefix, stream, temp_dyn_stream, num_prefix_bytes, has_dyn_fields, num_data_bytes)"
  shows "length temp_dyn_stream \<le> num_data_bytes
       \<and> take num_data_bytes temp_dyn_stream = temp_dyn_stream
       \<and> profile_serialize cls backing =
           Inr (prefix @ stream @ temp_dyn_stream, num_prefix_bytes + num_data_bytes)"
proof -
  from assms obtain active_fields data n num0 where
    loop: "profile_write_loop active_fields has_dyn_fields data n (pf_field_indices cls)
             ([], [], num0) = Inr (stream, temp_dyn_stream, num_data_bytes)"
    by (auto simp: profile_serialize_parts_def Let_def split: sum.splits if_splits prod.splits)
  have le: "length temp_dyn_stream \<le> num_data_bytes"
    using profile_write_loop_temp_length [OF loop] by simp
  have "\<not> has_dyn_fields \<Longrightarrow> temp_dyn_stream = []"
    using profile_write_loop_no_dyn loop by fastforce
  then show ?thesis using le assms by (auto simp: profile_serialize_def)
qed

theorem profile_serialize_writes_side_buffer_witness:
  "profile_serialize_parts ex_profile ex_backing_ab =
     Inr ([1], [7, 0, 6, 0, 0, 0], [1, 2, 3], 1, True, 9)
   \<and> length [1, 2, 3 :: byte] \<le> 9
   \<and> take 9 [1, 2, 3 :: byte] = [1, 2, 3]
   \<and> profile_serialize ex_profile ex_backing_ab =
        Inr ([1] @ [7, 0, 6, 0, 0, 0] @ [1, 2, 3], 1 + 9)"
proof -
  have p1: "profile_write_prefix ex_profile ex_backing_ab = Inr ([True], [1])"
    by code_simp
  have p2: "profile_count_loop [True] (pf_field_indices ex_profile) 0 (0, False)
              = Inr (1, 6, True)"
    by code_simp
  have p3: "profile_data ex_profile ex_backing_ab
              = Inr (ex_data_ab, Some [True, True, False, False], 4)"
    by code_simp
  have p4: "profile_write_loop (Some [True, True, False, False]) True ex_data_ab 4
              (pf_field_indices ex_profile) ([], [], 6)
              = Inr ([7, 0, 6, 0, 0, 0], [1, 2, 3], 9)"
    by code_simp
  have p5: "pf_o ex_profile = 1" by code_simp
  have parts: "profile_serialize_parts ex_profile ex_backing_ab =
     Inr ([1], [7, 0, 6, 0, 0, 0], [1, 2, 3], 1, True, 9)"
    by (simp add: profile_serialize_parts_def p1 p2 p3 p4 p5)
  from profile_serialize_writes_side_buffer [OF parts] parts show ?thesis by blast
qed

section \<open>Field assignment on a StableContainer\<close>

text \<open>
  Claim C8. Assigning field \<open>i\<close> of a StableContainer rewrites leaf \<open>i\<close> of the data
  subtree and bit \<open>i\<close> of the active-fields bitvector; every other leaf and every other
  bit are the same in the new backing.
\<close>

theorem stable_setattr_frame:
  assumes "backing = PairNode data right"
    and "perfect (get_depth (sc_N cls)) data"
    and "bv_view_from_backing (sc_N cls) right = Inr active_fields"
    and "map_of (sc_field_indices cls) key = Some (findex, ftyp)"
    and "findex < sc_N cls"
    and "key \<noteq> []" and "hd key \<noteq> CHR ''_''"
    and "value_node ftyp v = Inr fnode"
  shows "\<exists>data' right' active_fields'.
      stable_setattr super_setattr cls backing key v = (Inr (), PairNode data' right')
    \<and> bv_view_from_backing (sc_N cls) right' = Inr active_fields'
    \<and> (\<forall>j < sc_N cls. j \<noteq> findex \<longrightarrow> active_fields' ! j = active_fields ! j)
    \<and> (\<forall>j < 2 ^ get_depth (sc_N cls). j \<noteq> findex \<longrightarrow>
          getter data' (2 ^ get_depth (sc_N cls) + j)
            = getter data (2 ^ get_depth (sc_N cls) + j))
    \<and> active_fields' ! findex = (v \<noteq> PyNone)
    \<and> getter data' (2 ^ get_depth (sc_N cls) + findex) = Inr fnode"
proof -
  let ?D = "get_depth (sc_N cls)"
  have len: "length active_fields = sc_N cls"
    using assms(3) by (rule bv_view_from_backing_length)
  have i2: "findex < 2 ^ ?D" using assms(5) get_depth_upper [of "sc_N cls"] by simp
  from stable_set_backing_frame [OF assms(1,2,3,5,8)] obtain data' right' active_fields' where
    s: "stable_set_backing (StableSelf cls) backing findex ftyp (sc_N cls) v
        = Inr (PairNode data' right')"
    and v: "bv_view_from_backing (sc_N cls) right' = Inr active_fields'"
    and a: "active_fields' = active_fields[findex := (v \<noteq> PyNone)]"
    and g: "\<forall>j < 2 ^ ?D. getter data' (2 ^ ?D + j) =
            (if j = findex then Inr fnode else getter data (2 ^ ?D + j))"
    by blast
  have "stable_setattr super_setattr cls backing key v = (Inr (), PairNode data' right')"
    using assms(4,6,7) s by (cases key) (simp_all add: stable_setattr_def stable_set_def)
  moreover have "\<forall>j < sc_N cls. j \<noteq> findex \<longrightarrow> active_fields' ! j = active_fields ! j"
    by (simp add: a)
  moreover have "active_fields' ! findex = (v \<noteq> PyNone)"
    using assms(5) by (simp add: a len)
  moreover have "getter data' (2 ^ ?D + findex) = Inr fnode" using g i2 by simp
  moreover have "\<forall>j < 2 ^ ?D. j \<noteq> findex \<longrightarrow>
      getter data' (2 ^ ?D + j) = getter data (2 ^ ?D + j)"
    using g by simp
  ultimately show ?thesis using v by blast
qed

theorem stable_setattr_frame_witness:
  "ex_backing_a = PairNode ex_data_a (RootNode (pad_chunk [1]))
   \<and> perfect (get_depth (sc_N ex_stable)) ex_data_a
   \<and> bv_view_from_backing (sc_N ex_stable) (RootNode (pad_chunk [1]))
       = Inr [True, False, False, False]
   \<and> map_of (sc_field_indices ex_stable) ''b'' = Some (1, byte_list_type 8)
   \<and> 1 < sc_N ex_stable
   \<and> ''b'' \<noteq> [] \<and> hd ''b'' \<noteq> CHR ''_''
   \<and> value_node (byte_list_type 8) (PyRaw (RawBytes [1, 2, 3]))
       = Inr (PairNode (RootNode (pad_chunk [1, 2, 3])) (RootNode (pad_chunk [3])))
   \<and> (\<exists>data' right' active_fields'.
        stable_setattr ex_super_setattr ex_stable ex_backing_a ''b'' (PyRaw (RawBytes [1, 2, 3]))
          = (Inr (), PairNode data' right')
      \<and> bv_view_from_backing (sc_N ex_stable) right' = Inr active_fields'
      \<and> (\<forall>j < sc_N ex_stable. j \<noteq> 1 \<longrightarrow>
            active_fields' ! j = [True, False, False, False] ! j)
      \<and> (\<forall>j < 2 ^ get_depth (sc_N ex_stable). j \<noteq> 1 \<longrightarrow>
            getter data' (2 ^ get_depth (sc_N ex_stable) + j)
              = getter ex_data_a (2 ^ get_depth (sc_N ex_stable) + j))
      \<and> active_fields' ! 1 = (PyRaw (RawBytes [1, 2, 3]) \<noteq> PyNone)
      \<and> getter data' (2 ^ get_depth (sc_N ex_stable) + 1)
          = Inr (PairNode (RootNode (pad_chunk [1, 2, 3])) (RootNode (pad_chunk [3]))))"
proof -
  have h1: "ex_backing_a = PairNode ex_data_a (RootNode (pad_chunk [1]))"
    by (simp add: ex_backing_a_def ex_data_a_def)
  have d: "get_depth (sc_N ex_stable) = Suc (Suc 0)" by code_simp
  have h2: "perfect (get_depth (sc_N ex_stable)) ex_data_a"
    unfolding d by (simp add: ex_data_a_def)
  have h3: "bv_view_from_backing (sc_N ex_stable) (RootNode (pad_chunk [1]))
       = Inr [True, False, False, False]"
    by code_simp
  have h4: "map_of (sc_field_indices ex_stable) ''b'' = Some (1, byte_list_type 8)"
    by (simp add: ex_stable_def)
  have h5: "1 < sc_N ex_stable" by (simp add: ex_stable_def)
  have h6: "''b'' \<noteq> []" by simp
  have h7: "hd ''b'' \<noteq> CHR ''_''" by simp
  have h8: "value_node (byte_list_type 8) (PyRaw (RawBytes [1, 2, 3]))
       = Inr (PairNode (RootNode (pad_chunk [1, 2, 3])) (RootNode (pad_chunk [3])))"
    by code_simp
  from stable_setattr_frame [OF h1 h2 h3 h4 h5 h6 h7 h8, of ex_super_setattr]
    h1 h2 h3 h4 h5 h6 h7 h8
  show ?thesis by blast
qed

text \<open>
  Claim C2, as stated: after construction and after any sequence of assignments, leaf \<open>i\<close>
  is the zero leaf if and only if bit \<open>i\<close> is 0. A present field whose root is zero refutes
  the "only if": constructing the container with \<open>a = 0\<close> (a \<^verbatim>\<open>uint16\<close>) sets bit 0
  and stores the zero leaf at position 0.
\<close>

theorem presence_coherence_iff_counterexample:
  "stable_new ex_stable None [(''a'', PyRaw (RawInt 0))] = Inr ex_backing_zero
   \<and> get_left ex_backing_zero = Inr ex_data_zero
   \<and> getter ex_data_zero (2 ^ get_depth (sc_N ex_stable) + 0) = Inr (zero_node 0)
   \<and> stable_active_fields ex_stable ex_backing_zero = Inr [True, False, False, False]"
  by code_simp

text \<open>
  Claim C2, amended: after construction from a field map and after any sequence of field
  assignments, for every index \<open>i\<close> below the capacity, if bit \<open>i\<close> of the active-fields
  bitvector is 0 then leaf \<open>i\<close> of the data subtree is the zero leaf.
\<close>

theorem presence_coherence_after_sets:
  assumes "wf_stable_cls cls"
    and "stable_new cls None kwargs = Inr backing0"
    and "list_all (\<lambda>(key, v). key = [] \<or> hd key \<noteq> CHR ''_'') assignments"
    and "stable_setattr_seq super_setattr cls backing0 assignments = (outcome, backing)"
  shows "\<exists>data right active_fields.
      backing = PairNode data right
    \<and> bv_view_from_backing (sc_N cls) right = Inr active_fields
    \<and> (\<forall>i < sc_N cls. \<not> active_fields ! i \<longrightarrow>
          getter data (2 ^ get_depth (sc_N cls) + i) = Inr (zero_node 0))"
proof -
  have "presence_coherent cls backing0"
    using stable_new_coherent [OF assms(1,2)] .
  then have "presence_coherent cls backing"
    using stable_setattr_seq_coherent [OF assms(1) _ assms(3,4)] by blast
  then show ?thesis unfolding presence_coherent_def by blast
qed

theorem presence_coherence_after_sets_witness:
  "wf_stable_cls ex_stable
   \<and> stable_new ex_stable None [(''a'', PyRaw (RawInt 7))] = Inr ex_backing_a
   \<and> list_all (\<lambda>(key, v). key = [] \<or> hd key \<noteq> CHR ''_'')
        [(''b'', PyRaw (RawBytes [1, 2, 3])), (''a'', PyNone)]
   \<and> stable_setattr_seq ex_super_setattr ex_stable ex_backing_a
        [(''b'', PyRaw (RawBytes [1, 2, 3])), (''a'', PyNone)] = (Inr (), ex_backing_b)
   \<and> (\<exists>data right active_fields.
          ex_backing_b = PairNode data right
        \<and> bv_view_from_backing (sc_N ex_stable) right = Inr active_fields
        \<and> (\<forall>i < sc_N ex_stable. \<not> active_fields ! i \<longrightarrow>
              getter data (2 ^ get_depth (sc_N ex_stable) + i) = Inr (zero_node 0)))"
proof -
  have h1: "wf_stable_cls ex_stable"
    by (simp add: wf_stable_cls_def ex_stable_def upt_conv_Cons)
  have h2: "stable_new ex_stable None [(''a'', PyRaw (RawInt 7))] = Inr ex_backing_a"
    by code_simp
  have h3: "list_all (\<lambda>(key, v). key = [] \<or> hd key \<noteq> CHR ''_'')
        [(''b'', PyRaw (RawBytes [1, 2, 3])), (''a'', PyNone)]"
    by simp
  have h4: "stable_setattr_seq ex_super_setattr ex_stable ex_backing_a
        [(''b'', PyRaw (RawBytes [1, 2, 3])), (''a'', PyNone)] = (Inr (), ex_backing_b)"
    by code_simp
  from presence_coherence_after_sets [OF h1 h2 h3 h4] h1 h2 h3 h4 show ?thesis by blast
qed

end
